theory Spec2Isabelle
  imports Complex_Main
begin

section \<open>Retrieval hits and the relevance scorer\<close>

text \<open>
  The development follows backend_core.py and ui_gradio.py. Definitions carry the names
  of the source functions, without the leading underscore of \<^verbatim>\<open>_conf\<close>, \<^verbatim>\<open>_ok\<close>,
  \<^verbatim>\<open>_strip\<close>, \<^verbatim>\<open>_ctx\<close>, \<^verbatim>\<open>_prompt\<close>, \<^verbatim>\<open>_gen\<close> and \<^verbatim>\<open>_query\<close>.

  A hit is the dictionary the search backend returns for one chunk. The fields the
  pipeline reads are kept; a field is \<open>None\<close> when its key is missing or holds
  \<^verbatim>\<open>None\<close> (\<^verbatim>\<open>dict.get\<close> gives \<^verbatim>\<open>None\<close> in both cases).

  The values under \<^verbatim>\<open>_additional\<close> are whatever the backend sent (a number, a string,
  anything else), so their type \<open>'v\<close> is left open, and Python's builtin
  \<^verbatim>\<open>float(x)\<close> is a parameter \<open>float :: 'v \<Rightarrow> real option\<close> of the model:
  \<open>None\<close> stands for the call raising. Python floats are read as real numbers;
  rounding, infinities and NaN are not modelled.
\<close>

record 'v envelope =
  score :: "'v option"
  distance :: "'v option"

record 'v hit =
  additional :: "'v envelope option"
  page_title :: "string option"
  toc_title :: "string option"
  page_url :: "string option"
  chunk_index :: "int option"
  breadcrumb :: "string list option"
  chunk_text :: "string option"

text \<open>\<^verbatim>\<open>add = h.get("_additional", {}) or {}\<close>: a missing envelope is the empty dictionary.\<close>

definition additional_or_empty :: "'v hit \<Rightarrow> 'v envelope" where
  "additional_or_empty h =
     (case additional h of None \<Rightarrow> \<lparr>score = None, distance = None\<rparr> | Some a \<Rightarrow> a)"

text \<open>\<^verbatim>\<open>_conf\<close> of backend_core.py.\<close>

definition conf :: "('v \<Rightarrow> real option) \<Rightarrow> 'v hit \<Rightarrow> real" where
  "conf float h =
     (let add = additional_or_empty h in
      case (case score add of None \<Rightarrow> None | Some sc \<Rightarrow> float sc) of
        Some r \<Rightarrow> r
      | None \<Rightarrow>
          (case (case distance add of None \<Rightarrow> None | Some dst \<Rightarrow> float dst) of
             Some d \<Rightarrow> max 0 (min 1 (1 - d))
           | None \<Rightarrow> 0))"

text \<open>\<^verbatim>\<open>hit_confidence\<close> of ui_gradio.py: the same body.\<close>

definition hit_confidence :: "('v \<Rightarrow> real option) \<Rightarrow> 'v hit \<Rightarrow> real" where
  "hit_confidence float hit =
     (let add = additional_or_empty hit in
      case (case score add of None \<Rightarrow> None | Some sc \<Rightarrow> float sc) of
        Some r \<Rightarrow> r
      | None \<Rightarrow>
          (case (case distance add of None \<Rightarrow> None | Some dst \<Rightarrow> float dst) of
             Some d \<Rightarrow> max 0 (min 1 (1 - d))
           | None \<Rightarrow> 0))"

text \<open>
  The words of the specification: a field is \<^emph>\<open>present and numerically parseable\<close>
  when it is there and \<^verbatim>\<open>float\<close> accepts it; \<open>clamp x lo hi\<close> brings \<open>x\<close> into
  the interval from \<open>lo\<close> to \<open>hi\<close>.
\<close>

definition score_value :: "('v \<Rightarrow> real option) \<Rightarrow> 'v hit \<Rightarrow> real option" where
  "score_value float h =
     (case additional h of None \<Rightarrow> None
      | Some a \<Rightarrow> (case score a of None \<Rightarrow> None | Some sc \<Rightarrow> float sc))"

definition distance_value :: "('v \<Rightarrow> real option) \<Rightarrow> 'v hit \<Rightarrow> real option" where
  "distance_value float h =
     (case additional h of None \<Rightarrow> None
      | Some a \<Rightarrow> (case distance a of None \<Rightarrow> None | Some d \<Rightarrow> float d))"

definition clamp :: "real \<Rightarrow> real \<Rightarrow> real \<Rightarrow> real" where
  "clamp x lo hi = (if x < lo then lo else if hi < x then hi else x)"

text \<open>A hit that carries only a relevance envelope, for examples.\<close>

definition bare_hit :: "'v option \<Rightarrow> 'v option \<Rightarrow> 'v hit" where
  "bare_hit sc dst =
     \<lparr>additional = Some \<lparr>score = sc, distance = dst\<rparr>, page_title = None, toc_title = None,
      page_url = None, chunk_index = None, breadcrumb = None, chunk_text = None\<rparr>"

section \<open>The confidence gate\<close>

text \<open>
  The two thresholds are module constants read from the process environment when the
  module is loaded; \<open>default_config\<close> holds the values used when the variables are unset
  (\<^verbatim>\<open>float(os.getenv("OOD_MIN_SCORE", "0.35"))\<close>, and the same for \<^verbatim>\<open>OOD_MIN_SIM\<close>).
\<close>

record config =
  OOD_MIN_SCORE :: real
  OOD_MIN_SIM :: real

definition default_config :: config where
  "default_config = \<lparr>OOD_MIN_SCORE = 0.35, OOD_MIN_SIM = 0.35\<rparr>"

text \<open>Python's \<^verbatim>\<open>max\<close> over a non-empty sequence: the first of the largest elements.\<close>

fun py_max :: "real list \<Rightarrow> real" where
  "py_max [] = 0"
| "py_max (x # xs) = fold (\<lambda>y best. if best < y then y else best) xs x"

text \<open>\<^verbatim>\<open>_ok\<close> of backend_core.py. It returns before \<^verbatim>\<open>max\<close> is reached on no hits.\<close>

definition ok :: "config \<Rightarrow> ('v \<Rightarrow> real option) \<Rightarrow> 'v hit list \<Rightarrow> string \<Rightarrow> bool" where
  "ok cfg float hits mode =
     (if hits = [] then False
      else (let best = py_max (map (conf float) hits) in
            best \<ge> (if mode = ''hybrid'' \<or> mode = ''bm25'' then OOD_MIN_SCORE cfg
                     else OOD_MIN_SIM cfg)))"

text \<open>\<^verbatim>\<open>confident_enough\<close> of ui_gradio.py. The file defines it three times; the
  three bodies compute the same (the overlap term of the first is the constant
  \<^verbatim>\<open>False\<close>). This is the last one; the query argument is not used.\<close>

definition confident_enough ::
  "config \<Rightarrow> ('v \<Rightarrow> real option) \<Rightarrow> 'v hit list \<Rightarrow> string \<Rightarrow> string \<Rightarrow> bool" where
  "confident_enough cfg float hits mode q =
     (if hits = [] then False
      else (let best = py_max (map (hit_confidence float) hits) in
            if mode = ''hybrid'' \<or> mode = ''bm25'' then best \<ge> OOD_MIN_SCORE cfg
            else best \<ge> OOD_MIN_SIM cfg))"

text \<open>The specification's gate: one threshold for the score-bearing strategies, one for
  the pure-vector strategy.\<close>

definition gate :: "config \<Rightarrow> string \<Rightarrow> real" where
  "gate cfg mode =
     (if mode \<in> {''hybrid'', ''bm25''} then OOD_MIN_SCORE cfg else OOD_MIN_SIM cfg)"

text \<open>A sample value type for examples: a number, or something \<^verbatim>\<open>float\<close> rejects.\<close>

datatype sample = Num real | NotNumeric

fun sample_float :: "sample \<Rightarrow> real option" where
  "sample_float (Num r) = Some r"
| "sample_float NotNumeric = None"

section \<open>Text\<close>

text \<open>
  A Python \<^verbatim>\<open>str\<close> is modelled as the list of its characters, each an 8-bit
  \<^typ>\<open>char\<close>: the development covers text whose code points are below 256, and the
  character classes below are Python's classes on that range.
\<close>

definition NL :: char where
  "NL = CHR 0x0A"

definition code :: "char \<Rightarrow> nat" where
  "code c = of_char c"

text \<open>\<^verbatim>\<open>str.isspace\<close>, also the class \<^verbatim>\<open>\s\<close> of \<^verbatim>\<open>re\<close>.\<close>

definition isspace :: "char \<Rightarrow> bool" where
  "isspace c = ((9 \<le> code c \<and> code c \<le> 13) \<or> (28 \<le> code c \<and> code c \<le> 32)
                \<or> code c = 133 \<or> code c = 160)"

text \<open>The class \<^verbatim>\<open>\d\<close>: the decimal digits.\<close>

definition isdigit :: "char \<Rightarrow> bool" where
  "isdigit c = (48 \<le> code c \<and> code c \<le> 57)"

text \<open>The class \<^verbatim>\<open>\w\<close>: alphanumeric characters and the underscore.\<close>

definition isword :: "char \<Rightarrow> bool" where
  "isword c = (isdigit c \<or> (65 \<le> code c \<and> code c \<le> 90) \<or> (97 \<le> code c \<and> code c \<le> 122)
               \<or> code c = 95
               \<or> code c \<in> {170, 178, 179, 181, 185, 186, 188, 189, 190}
               \<or> (192 \<le> code c \<and> code c \<le> 214) \<or> (216 \<le> code c \<and> code c \<le> 246)
               \<or> 248 \<le> code c)"

text \<open>Case folding as \<^verbatim>\<open>re.IGNORECASE\<close> applies it to the ASCII letters of a pattern.\<close>

definition lower :: "char \<Rightarrow> char" where
  "lower c = (if 65 \<le> code c \<and> code c \<le> 90 then char_of (code c + 32) else c)"

text \<open>The literal \<open>p\<close> matches at the start of the text, ignoring case.\<close>

fun ci_prefix :: "string \<Rightarrow> string \<Rightarrow> bool" where
  "ci_prefix [] s = True"
| "ci_prefix (p # ps) [] = False"
| "ci_prefix (p # ps) (c # cs) = (lower p = lower c \<and> ci_prefix ps cs)"

text \<open>\<^verbatim>\<open>str.strip()\<close> and \<^verbatim>\<open>str.rstrip()\<close> without arguments.\<close>

definition py_rstrip :: "string \<Rightarrow> string" where
  "py_rstrip s = rev (dropWhile isspace (rev s))"

definition py_strip :: "string \<Rightarrow> string" where
  "py_strip s = py_rstrip (dropWhile isspace s)"

text \<open>\<^verbatim>\<open>sep.join(xs)\<close>.\<close>

fun join :: "string \<Rightarrow> string list \<Rightarrow> string" where
  "join sep [] = []"
| "join sep [x] = x"
| "join sep (x # y # ys) = x @ sep @ join sep (y # ys)"

text \<open>\<^verbatim>\<open>str(n)\<close> for an integer.\<close>

fun str_nat :: "nat \<Rightarrow> string" where
  "str_nat n =
     (if n < 10 then [''0123456789'' ! n]
      else str_nat (n div 10) @ [''0123456789'' ! (n mod 10)])"

definition str_int :: "int \<Rightarrow> string" where
  "str_int i = (if i < 0 then ''-'' @ str_nat (nat (- i)) else str_nat (nat i))"

subsection \<open>The answer validator's stripping step\<close>

text \<open>
  \<^verbatim>\<open>re.sub(r"(?is)<think>.*?(?:</think>|$)", "", s)\<close>.
  After an opening marker the lazy \<^verbatim>\<open>.*?\<close> tries each position in turn: the match ends
  behind the first closing marker, or at the first position where \<^verbatim>\<open>$\<close> holds. Without
  the multi-line flag \<^verbatim>\<open>$\<close> holds at the end of the text and just before a newline that
  is the last character. \<open>think_end\<close> returns the text that follows the match.
\<close>

fun think_end :: "string \<Rightarrow> string" where
  "think_end [] = []"
| "think_end (c # cs) =
     (if ci_prefix ''</think>'' (c # cs) then drop 8 (c # cs)
      else if c # cs = [NL] then c # cs
      else think_end cs)"

function sub_think :: "string \<Rightarrow> string" where
  "sub_think [] = []"
| "sub_think (c # cs) =
     (if ci_prefix ''<think>'' (c # cs) then sub_think (think_end (drop 7 (c # cs)))
      else c # sub_think cs)"
  by pat_completeness auto
termination
proof (relation "measure length")
  show "wf (measure length)"
    by simp
next
  fix c :: char and cs :: string
  assume "ci_prefix ''<think>'' (c # cs)"
  have le: "length (think_end s) \<le> length s" for s
    by (induction s rule: think_end.induct) auto
  have "length (think_end (drop 7 (c # cs))) \<le> length (drop 7 (c # cs))"
    by (rule le)
  then show "(think_end (drop 7 (c # cs)), c # cs) \<in> measure length"
    by simp
next
  fix c :: char and cs :: string
  show "(cs, c # cs) \<in> measure length"
    by simp
qed

text \<open>
  \<^verbatim>\<open>re.sub(r"(?ims)\n+Sources?:[\s\S]*\Z", "", s)\<close>: at the first newline whose run of
  newlines is followed by \<^verbatim>\<open>Source:\<close> or \<^verbatim>\<open>Sources:\<close> (in any case), the rest of
  the text is deleted.
\<close>

definition sources_marker :: "string \<Rightarrow> bool" where
  "sources_marker s = (ci_prefix ''sources:'' s \<or> ci_prefix ''source:'' s)"

fun sub_sources :: "string \<Rightarrow> string" where
  "sub_sources [] = []"
| "sub_sources (c # cs) =
     (if c = NL \<and> sources_marker (dropWhile (\<lambda>x. x = NL) cs) then []
      else c # sub_sources cs)"

text \<open>\<^verbatim>\<open>_strip\<close> of backend_core.py; \<open>None\<close> is Python's \<^verbatim>\<open>None\<close>
  (\<^verbatim>\<open>s = text or ""\<close>).\<close>

definition strip :: "string option \<Rightarrow> string" where
  "strip text =
     (let s = (case text of None \<Rightarrow> [] | Some t \<Rightarrow> t);
          s = sub_think s;
          s = sub_sources s
      in py_strip s)"

text \<open>
  For stating what the stripping step removes: the literal \<open>p\<close> occurs somewhere in the
  text (ignoring case); \<open>m\<close> is the literal \<open>p\<close> up to case; a newline of the text starts
  a match of the sources pattern.
\<close>

fun occurs_ci :: "string \<Rightarrow> string \<Rightarrow> bool" where
  "occurs_ci p [] = ci_prefix p []"
| "occurs_ci p (c # cs) = (ci_prefix p (c # cs) \<or> occurs_ci p cs)"

definition is_marker :: "string \<Rightarrow> string \<Rightarrow> bool" where
  "is_marker p m = (length m = length p \<and> ci_prefix p m)"

fun occurs_sources :: "string \<Rightarrow> bool" where
  "occurs_sources [] = False"
| "occurs_sources (c # cs) =
     ((c = NL \<and> sources_marker (dropWhile (\<lambda>x. x = NL) cs)) \<or> occurs_sources cs)"

text \<open>\<^verbatim>\<open>re.search(r"\[\d+\]", answer)\<close> finds a match.\<close>

fun search_citation :: "string \<Rightarrow> bool" where
  "search_citation [] = False"
| "search_citation (c # cs) =
     ((c = CHR ''['' \<and> takeWhile isdigit cs \<noteq> [] \<and>
       (case dropWhile isdigit cs of [] \<Rightarrow> False | d # _ \<Rightarrow> d = CHR '']''))
      \<or> search_citation cs)"

text \<open>
  \<^verbatim>\<open>re.search(r"\bautocad\b", answer, re.I)\<close> finds a match; the flag tells whether the
  character before the current position is a word character.
\<close>

fun autocad_from :: "bool \<Rightarrow> string \<Rightarrow> bool" where
  "autocad_from prev [] = False"
| "autocad_from prev (c # cs) =
     ((\<not> prev \<and> ci_prefix ''autocad'' (c # cs) \<and>
       (case drop 7 (c # cs) of [] \<Rightarrow> True | d # _ \<Rightarrow> \<not> isword d))
      \<or> autocad_from (isword c) cs)"

definition search_autocad :: "string \<Rightarrow> bool" where
  "search_autocad s = autocad_from False s"

section \<open>Context assembly and prompt (backend_core.py)\<close>

text \<open>\<^verbatim>\<open>x or y\<close> for an optional string \<open>x\<close>: \<^verbatim>\<open>None\<close> and the empty string are falsy.\<close>

definition or_str :: "string option \<Rightarrow> string \<Rightarrow> string" where
  "or_str x y = (case x of None \<Rightarrow> y | Some s \<Rightarrow> if s = [] then y else s)"

definition hit_title :: "'v hit \<Rightarrow> string" where
  "hit_title h = or_str (page_title h) (or_str (toc_title h) ''(untitled)'')"

text \<open>The two strings \<^verbatim>\<open>_ctx\<close> appends for hit number \<open>i\<close>.\<close>

definition ctx_block :: "nat \<Rightarrow> 'v hit \<Rightarrow> string" where
  "ctx_block i h =
     (let title = hit_title h;
          url = or_str (page_url h) [];
          idx = (case chunk_index h of None \<Rightarrow> ''None'' | Some n \<Rightarrow> str_int n);
          crumbs = join '' > '' (case breadcrumb h of None \<Rightarrow> [] | Some b \<Rightarrow> b);
          text = py_strip (or_str (chunk_text h) [])
      in ''['' @ str_nat i @ ''] Title: '' @ title @ [NL] @ ''URL: '' @ url @ [NL]
         @ ''Chunk #'' @ idx @ [NL] @ ''Breadcrumb: '' @ crumbs @ [NL] @ ''----'' @ [NL] @ text)"

definition ctx_source :: "nat \<Rightarrow> 'v hit \<Rightarrow> string" where
  "ctx_source i h =
     (let title = hit_title h;
          url = or_str (page_url h) [];
          show_idx = (case chunk_index h of None \<Rightarrow> []
                      | Some n \<Rightarrow> ''(chunk '' @ str_int n @ '')'')
      in ''- ['' @ str_nat i @ ''] '' @ title @ '' '' @ show_idx @ [NL] @ ''  '' @ url)"

text \<open>\<^verbatim>\<open>_ctx\<close>: the evidence block and the sources listing, numbered from 1.\<close>

definition ctx :: "'v hit list \<Rightarrow> string \<times> string" where
  "ctx hs =
     (let numbered = zip [1 ..< Suc (length hs)] hs;
          blocks = map (\<lambda>(i, h). ctx_block i h) numbered;
          src_md = map (\<lambda>(i, h). ctx_source i h) numbered
      in (join [NL, NL] blocks, if src_md \<noteq> [] then join [NL] src_md else ''_No sources_''))"

definition rules :: string where
  "rules = ''You are a helpful Autodesk Revit assistant.'' @ [NL]
     @ ''Use ONLY the information in SOURCES.'' @ [NL]
     @ ''If SOURCES do not clearly contain the answer, reply exactly: I don't know.'' @ [NL]
     @ ''Include bracket citations like [1], [2] tied to SOURCES numbers.'' @ [NL]
     @ ''Short, step-by-step when useful. No inner monologue. Do NOT print a 'Sources:' section.''"

text \<open>\<^verbatim>\<open>_prompt\<close>.\<close>

definition prompt :: "string \<Rightarrow> string \<Rightarrow> string" where
  "prompt q c = rules @ [NL, NL] @ ''SOURCES:'' @ [NL] @ c @ [NL, NL] @ ''USER QUESTION:'' @ [NL]
     @ q @ [NL, NL] @ ''YOUR ANSWER (with citations only like [1], [2]):'' @ [NL]"

text \<open>The text appended to the prompt for the retry.\<close>

definition brief_suffix :: string where
  "brief_suffix = [NL] @ ''Reply directly with the final answer only (no <think>, no Sources:). ''
     @ ''Keep it under 120 words and include [1] style citations.''"

definition sentinel :: string where
  "sentinel = ''I don't know.''"

section \<open>The two backends\<close>

text \<open>
  The search backend and the generation backend are outside the program. Each is a
  function of the calls made so far and of the arguments of the current call, so a
  backend may answer the same call differently the second time; the pipeline functions
  take the list of calls made so far and return it extended. A backend call either raises
  (\<open>Inl\<close>, with the exception's message) or returns.
\<close>

datatype strategy = NearText | Bm25 | Hybrid real

datatype call =
  Search string int strategy
| Generate string int

datatype exn = Exn string

fun message :: "exn \<Rightarrow> string" where
  "message (Exn s) = s"

text \<open>
  What \<^verbatim>\<open>d.get(key)\<close> finds in a dictionary of the response: no such key, the value
  \<^verbatim>\<open>None\<close>, or a value. The response of \<^verbatim>\<open>qget.do()\<close> is \<^verbatim>\<open>None\<close> or a dictionary,
  given by what is under \<^verbatim>\<open>"data"\<close>, there under \<^verbatim>\<open>"Get"\<close>, and there under the class name.
\<close>

datatype 'a field = Absent | Null | Val 'a

type_synonym 'v response = "'v hit list field field field option"

record 'v env =
  thresholds :: config
  py_float :: "'v \<Rightarrow> real option"
  weaviate_do :: "call list \<Rightarrow> string \<Rightarrow> int \<Rightarrow> strategy \<Rightarrow> exn + 'v response"
  ollama_generate :: "call list \<Rightarrow> string \<Rightarrow> int \<Rightarrow> exn + string"

definition attribute_error :: exn where
  "attribute_error = Exn ([CHR 0x27] @ ''NoneType'' @ [CHR 0x27] @ '' object has no attribute ''
     @ [CHR 0x27] @ ''get'' @ [CHR 0x27])"

text \<open>
  \<^verbatim>\<open>res = qget.do() or {}\<close> and
  \<^verbatim>\<open>(res.get("data",{}).get("Get",{}) or {}).get(CLASS_NAME, []) or []\<close>.
  Only \<^verbatim>\<open>"data": None\<close> has no default: \<^verbatim>\<open>.get\<close> is then called on \<^verbatim>\<open>None\<close>.
\<close>

definition get_hits :: "'v response \<Rightarrow> exn + 'v hit list" where
  "get_hits res =
     (case (case res of None \<Rightarrow> Absent | Some d \<Rightarrow> d) of
        Absent \<Rightarrow> Inr []
      | Null \<Rightarrow> Inl attribute_error
      | Val d \<Rightarrow>
          (case d of
             Absent \<Rightarrow> Inr []
           | Null \<Rightarrow> Inr []
           | Val g \<Rightarrow> (case g of Absent \<Rightarrow> Inr [] | Null \<Rightarrow> Inr [] | Val hs \<Rightarrow> Inr hs)))"

definition strategy_of :: "string \<Rightarrow> real \<Rightarrow> strategy" where
  "strategy_of mode alpha =
     (if mode = ''vector'' then NearText else if mode = ''bm25'' then Bm25 else Hybrid alpha)"

text \<open>\<^verbatim>\<open>_query\<close> of backend_core.py: no exception is handled here.\<close>

definition query ::
  "'v env \<Rightarrow> call list \<Rightarrow> string \<Rightarrow> int \<Rightarrow> string \<Rightarrow> real \<Rightarrow> (exn + 'v hit list) \<times> call list" where
  "query env calls q k mode alpha =
     (let calls1 = calls @ [Search q k (strategy_of mode alpha)] in
      case weaviate_do env calls q k (strategy_of mode alpha) of
        Inl e \<Rightarrow> (Inl e, calls1)
      | Inr res \<Rightarrow> (get_hits res, calls1))"

text \<open>\<^verbatim>\<open>_gen\<close> of backend_core.py.\<close>

definition gen :: "'v env \<Rightarrow> call list \<Rightarrow> string \<Rightarrow> int \<Rightarrow> (exn + string) \<times> call list" where
  "gen env calls p max_tokens = (ollama_generate env calls p max_tokens, calls @ [Generate p max_tokens])"

section \<open>The pipeline of backend_core.py\<close>

record diag =
  diag_hits :: nat
  diag_best_conf :: real
  diag_mode :: string
  diag_alpha :: real
  diag_k :: int

text \<open>The body of the \<^verbatim>\<open>try\<close> statement of \<^verbatim>\<open>rag_answer\<close>: \<open>Inl\<close> is the exception
  that the \<^verbatim>\<open>except\<close> clause receives.\<close>

definition generate_answer ::
  "'v env \<Rightarrow> call list \<Rightarrow> string \<Rightarrow> string \<Rightarrow> (exn + string) \<times> call list" where
  "generate_answer env calls question c =
     (case gen env calls (prompt question c) 1200 of
        (Inl e, calls1) \<Rightarrow> (Inl e, calls1)
      | (Inr raw, calls1) \<Rightarrow>
          (let answer = strip (Some raw) in
           if py_strip answer = [] then
             (let brief = prompt question c @ brief_suffix in
              case gen env calls1 brief 400 of
                (Inl e, calls2) \<Rightarrow> (Inl e, calls2)
              | (Inr raw2, calls2) \<Rightarrow> (Inr (strip (Some raw2)), calls2))
           else (Inr answer, calls1)))"

text \<open>The statements of \<^verbatim>\<open>rag_answer\<close> after the \<^verbatim>\<open>try\<close> statement: the citation
  check and the guardrail.\<close>

definition post_check :: "bool \<Rightarrow> string \<Rightarrow> string \<Rightarrow> diag \<Rightarrow> string \<times> string \<times> diag" where
  "post_check require_citation answer src d =
     (case (if require_citation \<and> \<not> search_citation answer
            then (if src \<noteq> [] then Some (py_strip (py_rstrip answer @ '' [1]'')) else None)
            else Some answer) of
        None \<Rightarrow> (sentinel, [], d)
      | Some a \<Rightarrow> if search_autocad a then (sentinel, [], d) else (a, src, d))"

text \<open>The dictionary \<^verbatim>\<open>diag\<close> that \<^verbatim>\<open>rag_answer\<close> builds from the hits and its arguments.\<close>

definition make_diag :: "'v env \<Rightarrow> 'v hit list \<Rightarrow> string \<Rightarrow> real \<Rightarrow> int \<Rightarrow> diag" where
  "make_diag env hs mode alpha k =
     \<lparr>diag_hits = length hs,
      diag_best_conf = (if hs \<noteq> [] then py_max (map (conf (py_float env)) hs) else 0),
      diag_mode = mode, diag_alpha = alpha, diag_k = k\<rparr>"

text \<open>\<^verbatim>\<open>rag_answer\<close>. An exception of the retrieval call is not handled: it leaves the
  function (\<open>Inl\<close>).\<close>

definition rag_answer ::
  "'v env \<Rightarrow> call list \<Rightarrow> string \<Rightarrow> string \<Rightarrow> real \<Rightarrow> int \<Rightarrow> bool
    \<Rightarrow> (exn + string \<times> string \<times> diag) \<times> call list" where
  "rag_answer env calls question mode alpha k require_citation =
     (case query env calls question k mode alpha of
        (Inl e, calls1) \<Rightarrow> (Inl e, calls1)
      | (Inr hs, calls1) \<Rightarrow>
          (let d = make_diag env hs mode alpha k in
           if \<not> ok (thresholds env) (py_float env) hs mode then (Inr (sentinel, [], d), calls1)
           else
             (case generate_answer env calls1 question (fst (ctx hs)) of
                (Inl e, calls2) \<Rightarrow> (Inr (''Generation error: '' @ message e, [], d), calls2)
              | (Inr answer, calls2) \<Rightarrow>
                  (Inr (post_check require_citation answer (snd (ctx hs)) d), calls2))))"

section \<open>The pipeline of ui_gradio.py\<close>

text \<open>\<^verbatim>\<open>query_weaviate\<close>: the same call as \<^verbatim>\<open>_query\<close>.\<close>

definition query_weaviate ::
  "'v env \<Rightarrow> call list \<Rightarrow> string \<Rightarrow> int \<Rightarrow> string \<Rightarrow> real \<Rightarrow> (exn + 'v hit list) \<times> call list" where
  "query_weaviate env calls q k mode alpha =
     (let calls1 = calls @ [Search q k (strategy_of mode alpha)] in
      case weaviate_do env calls q k (strategy_of mode alpha) of
        Inl e \<Rightarrow> (Inl e, calls1)
      | Inr res \<Rightarrow> (get_hits res, calls1))"

text \<open>\<^verbatim>\<open>try_search\<close>, the local function of \<^verbatim>\<open>ask\<close>: any exception gives no hits.\<close>

definition try_search ::
  "'v env \<Rightarrow> call list \<Rightarrow> string \<Rightarrow> real \<Rightarrow> string \<Rightarrow> int \<Rightarrow> 'v hit list \<times> call list" where
  "try_search env calls q alpha m top_k =
     (case query_weaviate env calls q top_k m alpha of
        (Inl e, calls1) \<Rightarrow> ([], calls1)
      | (Inr hs, calls1) \<Rightarrow> (hs, calls1))"

definition modes_to_try :: "string \<Rightarrow> string list" where
  "modes_to_try mode = [mode] @ filter (\<lambda>m. m \<noteq> mode) [''hybrid'', ''bm25'', ''vector'']"

text \<open>
  The \<^verbatim>\<open>for\<close> loop of \<^verbatim>\<open>ask\<close> over the modes still to try. It carries the variable
  \<^verbatim>\<open>hits\<close>; the result is \<^verbatim>\<open>hits\<close> and \<^verbatim>\<open>used_mode\<close> after the loop.
\<close>

fun search_loop ::
  "'v env \<Rightarrow> string \<Rightarrow> real \<Rightarrow> int \<Rightarrow> string list \<Rightarrow> 'v hit list \<Rightarrow> call list
    \<Rightarrow> ('v hit list \<times> string option) \<times> call list" where
  "search_loop env q alpha k [] hs calls = ((hs, None), calls)"
| "search_loop env q alpha k (m # ms) hs calls =
     (case try_search env calls q alpha m k of
        (hs1, calls1) \<Rightarrow>
          if hs1 \<noteq> [] \<and> confident_enough (thresholds env) (py_float env) hs1 m q
          then ((hs1, Some m), calls1)
          else
            (case try_search env calls1 q alpha m (min (2 * k) 15) of
               (hs2, calls2) \<Rightarrow>
                 if hs2 \<noteq> [] \<and> confident_enough (thresholds env) (py_float env) hs2 m q
                 then ((hs2, Some m), calls2)
                 else search_loop env q alpha k ms hs2 calls2))"

text \<open>
  The text helpers of ui_gradio.py that no property below depends on are parameters:
  \<^verbatim>\<open>build_context\<close>, \<^verbatim>\<open>build_prompt\<close> and \<^verbatim>\<open>strip_think\<close>, with the flag
  \<^verbatim>\<open>DEBUG_RETRIEVAL\<close> and the text \<^verbatim>\<open>CAPABILITIES_MD\<close> (which holds characters beyond
  the 8-bit range).
\<close>

record 'v ui =
  build_context :: "'v hit list \<Rightarrow> string \<times> string"
  build_prompt :: "string \<Rightarrow> string \<Rightarrow> string"
  strip_think :: "string \<Rightarrow> string"
  DEBUG_RETRIEVAL :: bool
  CAPABILITIES_MD :: string

text \<open>
  The statements of \<^verbatim>\<open>ask\<close> from the comment \<^verbatim>\<open># 2) Retrieval path\<close> to the end of the
  function, with the stripped question \<open>q\<close>. The result is the assistant's message added
  to the chat and the value of the sources panel.
\<close>

definition ask_retrieval ::
  "'v env \<Rightarrow> 'v ui \<Rightarrow> call list \<Rightarrow> string \<Rightarrow> string \<Rightarrow> real \<Rightarrow> int
    \<Rightarrow> (string \<times> string) \<times> call list" where
  "ask_retrieval env u calls q mode alpha k =
     (case search_loop env q alpha k (modes_to_try mode) [] calls of
        ((hs, used_mode), calls1) \<Rightarrow>
          (let dbg = (if DEBUG_RETRIEVAL u
                      then ''_debug: mode='' @ or_str used_mode ''none'' @ '' | topK=''
                           @ str_nat (length hs) @ ''_''
                      else []) in
           if hs = [] \<or> or_str used_mode [] = [] then ((sentinel, []), calls1)
           else
             (let src_md = snd (build_context u hs);
                  src_md = (if DEBUG_RETRIEVAL u \<and> src_md \<noteq> [] then dbg @ [NL, NL] @ src_md
                            else src_md);
                  p = build_prompt u q (fst (build_context u hs))
              in case gen env calls1 p 600 of
                   (r, calls2) \<Rightarrow>
                     (let answer = (case r of
                            Inl e \<Rightarrow> ''I encountered an error while generating the response: ''
                                     @ message e
                          | Inr raw \<Rightarrow> py_strip (strip_think u raw));
                          src_md = (case r of Inl e \<Rightarrow> [] | Inr raw \<Rightarrow> src_md)
                      in if \<not> search_citation answer then ((sentinel, []), calls2)
                         else ((answer, src_md), calls2)))))"

subsection \<open>The questions that are answered without retrieval\<close>

text \<open>\<^verbatim>\<open>str.lower()\<close> on 8-bit text: the letters A to Z and the accented capitals.\<close>

definition lower_char :: "char \<Rightarrow> char" where
  "lower_char c =
     (if (65 \<le> code c \<and> code c \<le> 90) \<or> (192 \<le> code c \<and> code c \<le> 222 \<and> code c \<noteq> 215)
      then char_of (code c + 32) else c)"

definition str_lower :: "string \<Rightarrow> string" where
  "str_lower s = map lower_char s"

text \<open>\<^verbatim>\<open>p in s\<close> for strings: \<open>p\<close> occurs in \<open>s\<close>.\<close>

fun contains :: "string \<Rightarrow> string \<Rightarrow> bool" where
  "contains p [] = (p = [])"
| "contains p (c # cs) = (take (length p) (c # cs) = p \<or> contains p cs)"

text \<open>\<^verbatim>\<open>s.split()\<close>: the maximal runs of characters that are not whitespace. The first
  argument is the word being read, in reverse.\<close>

fun split_from :: "string \<Rightarrow> string \<Rightarrow> string list" where
  "split_from cur [] = (if cur = [] then [] else [rev cur])"
| "split_from cur (c # cs) =
     (if isspace c then (if cur = [] then split_from [] cs else rev cur # split_from [] cs)
      else split_from (c # cur) cs)"

definition py_split :: "string \<Rightarrow> string list" where
  "py_split s = split_from [] s"

text \<open>\<^verbatim>\<open>is_capabilities_question\<close>.\<close>

definition is_capabilities_question :: "string \<Rightarrow> bool" where
  "is_capabilities_question q =
     (let ql = py_strip (str_lower q) in
      list_ex (\<lambda>p. contains p ql)
        [''how can you help'', ''how can u help'', ''what can you do'', ''what can u do'',
         ''help me with revit'', ''what do you do''])"

definition REVIT_KEYWORDS :: "string list" where
  "REVIT_KEYWORDS =
     [''revit'', ''wall'', ''curtain'', ''sheet'', ''view'', ''family'', ''dimension'', ''floor'',
      ''plan'', ''elevation'', ''schedule'', ''parameter'', ''model'', ''project'', ''tag'',
      ''room'', ''door'', ''window'', ''stairs'', ''railing'', ''section'', ''detail'', ''levels'',
      ''grid'']"

text \<open>
  \<^verbatim>\<open>re.fullmatch(r"(hi|hello|hey|yo|sup|good (morning|afternoon|evening))[!. ]*", ql)\<close>
  finds a match: the text is one of the greetings followed by nothing but exclamation
  marks, full stops and blanks.
\<close>

definition is_greeting :: "string \<Rightarrow> bool" where
  "is_greeting ql =
     list_ex (\<lambda>w. take (length w) ql = w \<and>
                  list_all (\<lambda>c. c = CHR ''!'' \<or> c = CHR ''.'' \<or> c = CHR '' '') (drop (length w) ql))
       [''hi'', ''hello'', ''hey'', ''yo'', ''sup'', ''good morning'', ''good afternoon'',
        ''good evening'']"

text \<open>
  \<^verbatim>\<open>re.search(r"(?:my name is|i am|i'm)\s+([a-z][a-z\-' ]{1,30})", ql)\<close>:
  \<open>intro_at\<close> is the group of a match that starts at the head of the text, \<open>search_intro\<close>
  the group of the leftmost match. The three openings differ in their first two
  characters, so at most one of them fits a position.
\<close>

definition is_az :: "char \<Rightarrow> bool" where
  "is_az c = (97 \<le> code c \<and> code c \<le> 122)"

definition name_char :: "char \<Rightarrow> bool" where
  "name_char c = (is_az c \<or> c = CHR ''-'' \<or> c = CHR 0x27 \<or> c = CHR '' '')"

definition intro_at :: "string \<Rightarrow> string option" where
  "intro_at s =
     (case filter (\<lambda>p. take (length p) s = p) [''my name is'', ''i am'', ''i'' @ [CHR 0x27] @ ''m''] of
        [] \<Rightarrow> None
      | p # _ \<Rightarrow>
          (let rest = drop (length p) s in
           if takeWhile isspace rest = [] then None
           else (case dropWhile isspace rest of
                   [] \<Rightarrow> None
                 | c # cs \<Rightarrow>
                     if is_az c \<and> take 30 (takeWhile name_char cs) \<noteq> []
                     then Some (c # take 30 (takeWhile name_char cs)) else None)))"

fun search_intro :: "string \<Rightarrow> string option" where
  "search_intro [] = None"
| "search_intro (c # cs) =
     (case intro_at (c # cs) of Some g \<Rightarrow> Some g | None \<Rightarrow> search_intro cs)"

text \<open>
  \<^verbatim>\<open>str.title()\<close> on a text of the letters a to z, hyphens and apostrophes, which is
  all the first word of the group can hold: a letter becomes a capital when the character
  before it is not a letter.
\<close>

fun title_from :: "bool \<Rightarrow> string \<Rightarrow> string" where
  "title_from prev [] = []"
| "title_from prev (c # cs) =
     (if is_az c then (if prev then c else char_of (code c - 32)) # title_from True cs
      else c # title_from False cs)"

text \<open>\<^verbatim>\<open>detect_smalltalk\<close>. The group of the pattern starts with a letter, so its first
  word exists.\<close>

definition detect_smalltalk :: "string \<Rightarrow> bool \<times> string option" where
  "detect_smalltalk q =
     (let ql = str_lower (py_strip q) in
      if ql = [] then (False, None)
      else if is_greeting ql then (True, None)
      else (case search_intro ql of
              Some g \<Rightarrow>
                (True, Some (title_from False
                   (case py_split (py_strip g) of [] \<Rightarrow> [] | w # _ \<Rightarrow> w)))
            | None \<Rightarrow>
                if length (py_split ql) \<le> 3 \<and> \<not> list_ex (\<lambda>w. contains w ql) REVIT_KEYWORDS
                then (True, None)
                else (False, None)))"

text \<open>
  \<^verbatim>\<open>ask\<close>. The result is the assistant's message added to the chat (\<open>None\<close> when the
  chat is left as it is) and the value of the sources panel. An empty question, a
  capabilities question and small talk are answered without any call.
\<close>

definition ask ::
  "'v env \<Rightarrow> 'v ui \<Rightarrow> call list \<Rightarrow> string \<Rightarrow> string \<Rightarrow> real \<Rightarrow> int
    \<Rightarrow> (string option \<times> string) \<times> call list" where
  "ask env u calls question mode alpha k =
     (let q = py_strip question in
      if q = [] then ((None, []), calls)
      else if is_capabilities_question q then ((Some (CAPABILITIES_MD u), []), calls)
      else (case detect_smalltalk q of
              (True, name) \<Rightarrow>
                ((Some (case name of
                          Some n \<Rightarrow> ''Hi '' @ n @ '', how can I help you with Revit today?''
                        | None \<Rightarrow> ''Hi! How can I help you with Revit today?''), []), calls)
            | (False, name) \<Rightarrow>
                (case ask_retrieval env u calls q mode alpha k of
                   ((answer, src_md), calls1) \<Rightarrow> ((Some answer, src_md), calls1))))"

text \<open>The question reaches the retrieval path of \<^verbatim>\<open>ask\<close>.\<close>

definition reaches_retrieval :: "string \<Rightarrow> bool" where
  "reaches_retrieval question =
     (py_strip question \<noteq> [] \<and> \<not> is_capabilities_question (py_strip question) \<and>
      \<not> fst (detect_smalltalk (py_strip question)))"

section \<open>Sample data and the words of the specification\<close>

text \<open>
  A hit and a scripted pair of backends (each answers by the calls made so far) for
  the examples.
\<close>

definition sample_hit :: "real \<Rightarrow> sample hit" where
  "sample_hit s =
     \<lparr>additional = Some \<lparr>score = Some (Num s), distance = None\<rparr>,
      page_title = Some ''Curtain walls'', toc_title = None,
      page_url = Some ''https://example.org/walls'', chunk_index = Some 3,
      breadcrumb = Some [''Revit'', ''Walls''], chunk_text = Some '' Use curtain wall grids. ''\<rparr>"

definition sample_env ::
  "(call list \<Rightarrow> exn + sample response) \<Rightarrow> (call list \<Rightarrow> exn + string) \<Rightarrow> sample env" where
  "sample_env w g =
     \<lparr>thresholds = default_config, py_float = sample_float,
      weaviate_do = (\<lambda>calls q k s. w calls), ollama_generate = (\<lambda>calls p n. g calls)\<rparr>"

definition found :: "sample hit list \<Rightarrow> exn + sample response" where
  "found hs = Inr (Some (Val (Val (Val hs))))"

text \<open>The call goes to the generation backend.\<close>

fun is_generate :: "call \<Rightarrow> bool" where
  "is_generate (Generate p n) = True"
| "is_generate (Search q k s) = False"

text \<open>
  The orchestrator as the specification words it: the candidate strategies are the
  preferred one and then the other two in a fixed order; each is attempted with the
  requested result count and then once with the enlarged one; the attempts are made in
  turn up to the first one that is accepted.
\<close>

definition candidates :: "string \<Rightarrow> string list" where
  "candidates mode =
     (if mode = ''hybrid'' then [''hybrid'', ''bm25'', ''vector'']
      else if mode = ''bm25'' then [''bm25'', ''hybrid'', ''vector'']
      else [''vector'', ''hybrid'', ''bm25''])"

definition attempts :: "string list \<Rightarrow> int \<Rightarrow> (string \<times> int) list" where
  "attempts ms k = concat (map (\<lambda>m. [(m, k), (m, min (2 * k) 15)]) ms)"

fun first_accepted ::
  "'v env \<Rightarrow> string \<Rightarrow> real \<Rightarrow> (string \<times> int) list \<Rightarrow> 'v hit list \<Rightarrow> call list
    \<Rightarrow> ('v hit list \<times> string option) \<times> call list" where
  "first_accepted env q alpha [] hs calls = ((hs, None), calls)"
| "first_accepted env q alpha ((m, n) # rest) hs calls =
     (case try_search env calls q alpha m n of
        (hs1, calls1) \<Rightarrow>
          if hs1 \<noteq> [] \<and> confident_enough (thresholds env) (py_float env) hs1 m q
          then ((hs1, Some m), calls1)
          else first_accepted env q alpha rest hs1 calls1)"

text \<open>Stand-ins for the text helpers of ui_gradio.py, for examples.\<close>

definition sample_ui :: "sample ui" where
  "sample_ui = \<lparr>build_context = ctx, build_prompt = prompt, strip_think = (\<lambda>s. s),
                DEBUG_RETRIEVAL = False, CAPABILITIES_MD = ''### How I can help''\<rparr>"

text \<open>
  The citation indices of a text: the numbers of its bracketed citations, in order.
\<close>

definition digits_value :: "string \<Rightarrow> nat" where
  "digits_value ds = foldl (\<lambda>n d. 10 * n + (code d - 48)) 0 ds"

fun citation_indices :: "string \<Rightarrow> nat list" where
  "citation_indices [] = []"
| "citation_indices (c # cs) =
     (if c = CHR ''['' \<and> takeWhile isdigit cs \<noteq> [] \<and>
         (case dropWhile isdigit cs of [] \<Rightarrow> False | d # _ \<Rightarrow> d = CHR '']'')
      then digits_value (takeWhile isdigit cs) # citation_indices cs
      else citation_indices cs)"


section \<open>Properties of the scorer and the gate\<close>

lemma hit_confidence_conf: "hit_confidence float h = conf float h"
  by (simp add: hit_confidence_def conf_def)

lemma conf_cases:
  "conf float h =
     (case score_value float h of Some r \<Rightarrow> r
      | None \<Rightarrow> (case distance_value float h of Some d \<Rightarrow> max 0 (min 1 (1 - d)) | None \<Rightarrow> 0))"
  by (simp add: conf_def additional_or_empty_def score_value_def distance_value_def
      split: option.splits)

lemma clamp_unit: "clamp x 0 1 = max 0 (min 1 x)"
  by (simp add: clamp_def max_def min_def)

lemma py_max_fold: "fold (\<lambda>y best. if best < y then y else best) xs x = Max (insert x (set xs))"
proof (induction xs arbitrary: x)
  case Nil
  show ?case by simp
next
  case (Cons y ys)
  have "Max (insert y (insert x (set ys))) = max y (Max (insert x (set ys)))"
    by simp
  also have "\<dots> = Max (insert (max x y) (set ys))"
    by (cases "set ys = {}") (auto simp: max.commute max.left_commute)
  finally show ?case
    using Cons.IH [of "if x < y then y else x"]
    by (simp add: max_def insert_commute split: if_splits)
qed

lemma py_max_Max: "xs \<noteq> [] \<Longrightarrow> py_max xs = Max (set xs)"
  by (cases xs) (simp_all add: py_max_fold)

text \<open>
  C1. The confidence of a hit is its score when the score field is present and
  numerically parseable; otherwise, when the distance field is present and parseable,
  it is \<open>clamp (1 - distance) 0 1\<close>; and when neither field gives a number it is 0.
  Both scorers (\<open>conf\<close> of backend_core.py and \<open>hit_confidence\<close> of ui_gradio.py)
  follow the rule.
\<close>

theorem conf_rule:
  "(score_value float h = Some s \<longrightarrow> conf float h = s \<and> hit_confidence float h = s) \<and>
   (score_value float h = None \<and> distance_value float h = Some d \<longrightarrow>
      conf float h = clamp (1 - d) 0 1 \<and> hit_confidence float h = clamp (1 - d) 0 1) \<and>
   (score_value float h = None \<and> distance_value float h = None \<longrightarrow>
      conf float h = 0 \<and> hit_confidence float h = 0)"
  by (simp add: hit_confidence_conf conf_cases clamp_unit)

theorem conf_rule_witness:
  "score_value sample_float (bare_hit (Some (Num 0.9)) (Some (Num 0.2))) = Some 0.9 \<and>
   conf sample_float (bare_hit (Some (Num 0.9)) (Some (Num 0.2))) = 0.9 \<and>
   score_value sample_float (bare_hit (Some NotNumeric) (Some (Num 0.2))) = None \<and>
   distance_value sample_float (bare_hit (Some NotNumeric) (Some (Num 0.2))) = Some 0.2 \<and>
   hit_confidence sample_float (bare_hit (Some NotNumeric) (Some (Num 0.2))) = 0.8 \<and>
   conf sample_float (bare_hit None (Some (Num 1.5))) = 0 \<and>
   distance_value sample_float (bare_hit None (Some NotNumeric)) = None \<and>
   conf sample_float (bare_hit None (Some NotNumeric)) = 0"
  using conf_rule [of sample_float "bare_hit (Some (Num 0.9)) (Some (Num 0.2))" "0.9"]
    conf_rule [of sample_float "bare_hit (Some NotNumeric) (Some (Num 0.2))" _ "0.2"]
    conf_rule [of sample_float "bare_hit None (Some (Num 1.5))" _ "1.5"]
    conf_rule [of sample_float "bare_hit None (Some NotNumeric)"]
  by (simp add: score_value_def distance_value_def bare_hit_def clamp_def)

text \<open>
  C3. A retrieval attempt is accepted exactly when the hit sequence is non-empty and the
  largest confidence over its hits reaches the gate of the strategy: the threshold
  \<^verbatim>\<open>OOD_MIN_SCORE\<close> for hybrid and bm25, the threshold \<^verbatim>\<open>OOD_MIN_SIM\<close> otherwise. Both
  thresholds are 0.35 by default. This holds for \<open>ok\<close> (backend_core.py) and for
  \<open>confident_enough\<close> (ui_gradio.py).
\<close>

theorem ok_iff_gate:
  "ok cfg float hs mode = (hs \<noteq> [] \<and> Max (conf float ` set hs) \<ge> gate cfg mode) \<and>
   confident_enough cfg float hs mode q
     = (hs \<noteq> [] \<and> Max (hit_confidence float ` set hs) \<ge> gate cfg mode) \<and>
   gate default_config ''hybrid'' = 0.35 \<and> gate default_config ''bm25'' = 0.35 \<and>
   gate default_config ''vector'' = 0.35"
proof -
  have m: "hs \<noteq> [] \<Longrightarrow> py_max (map (conf float) hs) = Max (conf float ` set hs)"
    using py_max_Max [of "map (conf float) hs"] by simp
  have 1: "ok cfg float hs mode = (hs \<noteq> [] \<and> Max (conf float ` set hs) \<ge> gate cfg mode)"
    using m by (auto simp: ok_def gate_def Let_def)
  have h: "hit_confidence float = conf float"
    by (rule ext) (rule hit_confidence_conf)
  have 2: "confident_enough cfg float hs mode q
     = (hs \<noteq> [] \<and> Max (hit_confidence float ` set hs) \<ge> gate cfg mode)"
    using m by (auto simp: confident_enough_def gate_def Let_def h)
  have 3: "gate default_config ''hybrid'' = 0.35 \<and> gate default_config ''bm25'' = 0.35 \<and>
      gate default_config ''vector'' = 0.35"
    by (simp add: gate_def default_config_def)
  from 1 2 3 show ?thesis by blast
qed

theorem ok_iff_gate_witness:
  "ok default_config sample_float [bare_hit (Some (Num 0.1)) None, bare_hit (Some (Num 0.9)) None]
     ''hybrid'' \<and>
   \<not> ok default_config sample_float [bare_hit (Some (Num 0.1)) None] ''bm25'' \<and>
   \<not> confident_enough default_config sample_float [] ''vector'' ''q'' \<and>
   confident_enough default_config sample_float [bare_hit None (Some (Num 0.2))] ''vector'' ''q''"
proof -
  have c: "conf sample_float (bare_hit (Some (Num x)) None) = x"
      "conf sample_float (bare_hit None (Some (Num x))) = max 0 (min 1 (1 - x))" for x
    by (simp_all add: conf_def bare_hit_def additional_or_empty_def)
  have g: "gate default_config m = 0.35" for m
    by (simp add: gate_def default_config_def)
  show ?thesis
    using ok_iff_gate [of default_config sample_float
        "[bare_hit (Some (Num 0.1)) None, bare_hit (Some (Num 0.9)) None]" "''hybrid''" "[]"]
      ok_iff_gate [of default_config sample_float "[bare_hit (Some (Num 0.1)) None]" "''bm25''" "[]"]
      ok_iff_gate [of default_config sample_float "[]" "''vector''" "''q''"]
      ok_iff_gate [of default_config sample_float "[bare_hit None (Some (Num 0.2))]" "''vector''" "''q''"]
    by (simp add: c g hit_confidence_conf)
qed

lemma conf_without_score_in_unit:
  "score_value float h = None \<Longrightarrow> 0 \<le> conf float h \<and> conf float h \<le> 1"
  by (simp add: conf_cases split: option.splits)

text \<open>
  C9. The confidence is meant to lie between 0 and 1. A score is returned as it is, so
  a hit whose score is 2.5 (a BM25 score, say) gets the confidence 2.5, from \<open>conf\<close> and
  from \<open>hit_confidence\<close> alike; only the distance branch is clamped.
\<close>

theorem conf_score_not_clamped:
  "conf sample_float (bare_hit (Some (Num 2.5)) None) = 2.5 \<and>
   hit_confidence sample_float (bare_hit (Some (Num 2.5)) None) = 2.5 \<and>
   \<not> (conf sample_float (bare_hit (Some (Num 2.5)) None) \<le> 1)"
  by (simp add: hit_confidence_conf conf_def bare_hit_def additional_or_empty_def)

section \<open>Properties of the stripping step\<close>

subsection \<open>Reasoning segments\<close>

lemma ci_prefix_append:
  "ci_prefix p (xs @ ys) =
     (ci_prefix p xs \<or>
      (length xs < length p \<and> ci_prefix (take (length xs) p) xs \<and> ci_prefix (drop (length xs) p) ys))"
  by (induction p xs rule: ci_prefix.induct) auto

lemma open_tail_no_lt:
  assumes "0 < k" "k < 7"
  shows "\<not> ci_prefix (drop k ''<think>'') (CHR ''<'' # r)"
proof -
  from assms have "k = 1 \<or> k = 2 \<or> k = 3 \<or> k = 4 \<or> k = 5 \<or> k = 6" by arith
  then show ?thesis by (auto simp: lower_def code_def)
qed

lemma close_tail_no_lt:
  assumes "0 < k" "k < 8"
  shows "\<not> ci_prefix (drop k ''</think>'') (CHR ''<'' # r)"
proof -
  from assms have "k = 1 \<or> k = 2 \<or> k = 3 \<or> k = 4 \<or> k = 5 \<or> k = 6 \<or> k = 7" by arith
  then show ?thesis by (auto simp: lower_def code_def)
qed

lemma open_not_straddling:
  assumes "\<not> ci_prefix ''<think>'' s" and "s \<noteq> []"
  shows "\<not> ci_prefix ''<think>'' (s @ CHR ''<'' # r)"
proof
  assume "ci_prefix ''<think>'' (s @ CHR ''<'' # r)"
  with assms have "length s < 7 \<and> ci_prefix (drop (length s) ''<think>'') (CHR ''<'' # r)"
    by (subst (asm) ci_prefix_append) simp
  then show False using open_tail_no_lt [of "length s" r] assms(2) by simp
qed

lemma close_not_straddling:
  assumes "\<not> ci_prefix ''</think>'' s" and "s \<noteq> []"
  shows "\<not> ci_prefix ''</think>'' (s @ CHR ''<'' # r)"
proof
  assume "ci_prefix ''</think>'' (s @ CHR ''<'' # r)"
  with assms have "length s < 8 \<and> ci_prefix (drop (length s) ''</think>'') (CHR ''<'' # r)"
    by (subst (asm) ci_prefix_append) simp
  then show False using close_tail_no_lt [of "length s" r] assms(2) by simp
qed

lemma sub_think_skip:
  assumes "\<not> ci_prefix ''<think>'' (c # cs)"
  shows "sub_think (c # cs) = c # sub_think cs"
  by (subst sub_think.simps(2)) (simp only: assms if_False)

lemma sub_think_match:
  assumes "ci_prefix ''<think>'' (c # cs)"
  shows "sub_think (c # cs) = sub_think (think_end (drop 7 (c # cs)))"
  by (subst sub_think.simps(2)) (simp only: assms if_True)

lemma think_end_skip:
  assumes "\<not> ci_prefix ''</think>'' (c # cs)" and "c # cs \<noteq> [NL]"
  shows "think_end (c # cs) = think_end cs"
  by (subst think_end.simps(2)) (simp only: assms if_False)

lemma sub_think_no_open:
  "\<not> occurs_ci ''<think>'' pre \<Longrightarrow> sub_think (pre @ CHR ''<'' # r) = pre @ sub_think (CHR ''<'' # r)"
proof (induction pre)
  case Nil
  show ?case by simp
next
  case (Cons c cs)
  have n: "\<not> ci_prefix ''<think>'' (c # cs)" and o: "\<not> occurs_ci ''<think>'' cs"
    using Cons.prems unfolding occurs_ci.simps by blast+
  have "\<not> ci_prefix ''<think>'' (c # (cs @ CHR ''<'' # r))"
    using open_not_straddling [OF n, of r] by (simp only: append_Cons list.distinct not_False_eq_True)
  then have "sub_think (c # (cs @ CHR ''<'' # r)) = c # sub_think (cs @ CHR ''<'' # r)"
    by (rule sub_think_skip)
  then show ?case using Cons.IH [OF o] by simp
qed

lemma sub_think_id: "\<not> occurs_ci ''<think>'' pre \<Longrightarrow> sub_think pre = pre"
  by (induction pre) auto

lemma think_end_no_close:
  "\<not> occurs_ci ''</think>'' r \<Longrightarrow> think_end r = (if r \<noteq> [] \<and> last r = NL then [NL] else [])"
  by (induction r) auto

lemma think_end_closed:
  "\<not> occurs_ci ''</think>'' body \<Longrightarrow> think_end (body @ ''</think>'' @ post) = post"
proof (induction body)
  case Nil
  show ?case by (simp add: lower_def code_def)
next
  case (Cons c cs)
  have n: "\<not> ci_prefix ''</think>'' (c # cs)" and o: "\<not> occurs_ci ''</think>'' cs"
    using Cons.prems unfolding occurs_ci.simps by blast+
  have "\<not> ci_prefix ''</think>'' (c # (cs @ ''</think>'' @ post))"
    using close_not_straddling [OF n, of "''/think>'' @ post"]
    by (simp only: append_Cons append_Nil list.distinct not_False_eq_True)
  moreover have "c # (cs @ ''</think>'' @ post) \<noteq> [NL]"
    by simp
  ultimately have "think_end (c # (cs @ ''</think>'' @ post)) = think_end (cs @ ''</think>'' @ post)"
    by (rule think_end_skip)
  then show ?case using Cons.IH [OF o] by simp
qed

lemma sub_think_open:
  "sub_think (''<think>'' @ r) = sub_think (think_end r)"
  by (simp add: lower_def code_def)

lemma sub_think_NL: "sub_think [NL] = [NL]"
  by simp

subsection \<open>Whitespace and the sources section\<close>

lemma isspace_NL: "isspace NL"
  by (simp add: isspace_def NL_def code_def)

lemma py_rstrip_snoc: "isspace c \<Longrightarrow> py_rstrip (x @ [c]) = py_rstrip x"
  by (simp add: py_rstrip_def)

lemma py_strip_snoc: "isspace c \<Longrightarrow> py_strip (x @ [c]) = py_strip x"
proof (cases "\<forall>y\<in>set x. isspace y")
  case True
  assume "isspace c"
  with True have d: "dropWhile isspace x = []" "dropWhile isspace (x @ [c]) = []"
    by (simp_all add: dropWhile_eq_Nil_conv)
  show ?thesis unfolding py_strip_def d ..
next
  case False
  assume "isspace c"
  from False have "dropWhile isspace (x @ [c]) = dropWhile isspace x @ [c]"
    by (auto simp: dropWhile_append)
  with \<open>isspace c\<close> show ?thesis by (simp add: py_strip_def py_rstrip_snoc)
qed

lemma py_strip_replicate: "isspace c \<Longrightarrow> py_strip (x @ replicate n c) = py_strip x"
proof (induction n)
  case 0 show ?case by simp
next
  case (Suc n)
  have "x @ replicate (Suc n) c = (x @ replicate n c) @ [c]"
    by (simp add: replicate_append_same)
  then show ?case using Suc py_strip_snoc [of c "x @ replicate n c"] by simp
qed

lemma py_rstrip_prefix: "\<exists>t. s = py_rstrip s @ t"
proof -
  have "rev s = takeWhile isspace (rev s) @ dropWhile isspace (rev s)" by simp
  then have "s = rev (dropWhile isspace (rev s)) @ rev (takeWhile isspace (rev s))"
    by (metis rev_append rev_rev_ident)
  then show ?thesis unfolding py_rstrip_def by blast
qed

lemma py_strip_edges:
  assumes "py_strip s \<noteq> []"
  shows "\<not> isspace (hd (py_strip s)) \<and> \<not> isspace (last (py_strip s))"
proof -
  let ?y = "dropWhile isspace s"
  from assms have ne: "dropWhile isspace (rev ?y) \<noteq> []"
    by (simp add: py_strip_def py_rstrip_def)
  have l: "\<not> isspace (last (py_strip s))"
    using ne hd_dropWhile [of isspace "rev ?y"] by (simp add: py_strip_def py_rstrip_def last_rev)
  obtain t where t: "?y = py_rstrip ?y @ t" using py_rstrip_prefix by blast
  from assms have "py_rstrip ?y \<noteq> []" by (simp add: py_strip_def)
  with t have "hd (py_rstrip ?y) = hd ?y" by (metis hd_append2)
  moreover from assms have "?y \<noteq> []"
    by (cases "?y = []") (simp_all add: py_strip_def py_rstrip_def)
  then have "\<not> isspace (hd ?y)" by (rule hd_dropWhile)
  ultimately show ?thesis using l by (simp add: py_strip_def)
qed

lemma ci_prefix_snoc:
  "lower x \<notin> lower ` set p \<Longrightarrow> ci_prefix p (t @ [x]) = ci_prefix p t"
  by (induction p t rule: ci_prefix.induct) auto

lemma ci_prefix_append_other:
  "lower x \<notin> lower ` set p \<Longrightarrow> ci_prefix p (t @ x # r) = ci_prefix p t"
  by (induction p t rule: ci_prefix.induct) auto

lemma sources_marker_snoc_NL: "sources_marker (t @ [NL]) = sources_marker t"
  by (simp add: sources_marker_def ci_prefix_snoc lower_def code_def NL_def)

lemma sources_marker_append_NL: "sources_marker (t @ NL # r) = sources_marker t"
  by (simp add: sources_marker_def ci_prefix_append_other lower_def code_def NL_def)

lemma sources_marker_Nil: "\<not> sources_marker []"
  by (simp add: sources_marker_def)

lemma sub_sources_snoc_NL:
  "sub_sources (s @ [NL]) = sub_sources s @ [NL] \<or> sub_sources (s @ [NL]) = sub_sources s"
proof (induction s)
  case Nil
  show ?case by (simp add: sources_marker_Nil)
next
  case (Cons c cs)
  have "sources_marker (dropWhile (\<lambda>x. x = NL) (cs @ [NL])) = sources_marker (dropWhile (\<lambda>x. x = NL) cs)"
  proof (cases "\<forall>y\<in>set cs. y = NL")
    case True
    then have d: "dropWhile (\<lambda>x. x = NL) cs = []" "dropWhile (\<lambda>x. x = NL) (cs @ [NL]) = []"
      by (simp_all add: dropWhile_eq_Nil_conv)
    show ?thesis unfolding d ..
  next
    case False
    then have "dropWhile (\<lambda>x. x = NL) (cs @ [NL]) = dropWhile (\<lambda>x. x = NL) cs @ [NL]"
      by (auto simp: dropWhile_append)
    then show ?thesis by (simp add: sources_marker_snoc_NL)
  qed
  then show ?case using Cons.IH by auto
qed

subsection \<open>The stripping step as a whole\<close>

lemma lower_lt: "lower c = CHR ''<'' \<Longrightarrow> c = CHR ''<''"
proof (cases "65 \<le> code c \<and> code c \<le> 90")
  case False
  assume "lower c = CHR ''<''"
  with False show ?thesis by (auto simp: lower_def)
next
  case True
  assume "lower c = CHR ''<''"
  with True have "char_of (code c + 32) = CHR ''<''" by (simp add: lower_def)
  then have "(of_char (char_of (code c + 32)) :: nat) = of_char (CHR ''<'')" by simp
  then have "(code c + 32) mod 256 = 60" by (simp add: of_char_of)
  with True show ?thesis by auto
qed

lemma marker_lt:
  assumes "ci_prefix (CHR ''<'' # p) m"
  obtains r where "m = CHR ''<'' # r" and "ci_prefix p r"
proof (cases m)
  case Nil
  with assms show ?thesis by simp
next
  case (Cons c r)
  with assms have "lower c = CHR ''<''" and "ci_prefix p r" by (simp_all add: lower_def code_def)
  then show ?thesis using Cons lower_lt that by blast
qed

lemma ci_prefix_appendI: "ci_prefix p m \<Longrightarrow> ci_prefix p (m @ r)"
  by (simp add: ci_prefix_append)

lemma sub_think_unclosed:
  assumes pre: "\<not> occurs_ci ''<think>'' pre" and m: "is_marker ''<think>'' m"
    and rest: "\<not> occurs_ci ''</think>'' rest"
  shows "sub_think (pre @ m @ rest) = pre @ (if rest \<noteq> [] \<and> last rest = NL then [NL] else [])"
proof -
  from m have len: "length m = 7" and cp: "ci_prefix ''<think>'' m"
    by (simp_all add: is_marker_def)
  from cp obtain r where r: "m = CHR ''<'' # r" by (rule marker_lt)
  have "sub_think (pre @ m @ rest) = pre @ sub_think (m @ rest)"
    using sub_think_no_open [OF pre, of "r @ rest"] by (simp add: r)
  also have "sub_think (m @ rest) = sub_think (think_end (drop 7 (m @ rest)))"
    using sub_think_match [of "CHR ''<''" "r @ rest"] ci_prefix_appendI [OF cp, of rest]
    by (simp only: r append_Cons)
  also have "drop 7 (m @ rest) = rest"
    using len by simp
  also have "think_end rest = (if rest \<noteq> [] \<and> last rest = NL then [NL] else [])"
    by (rule think_end_no_close [OF rest])
  also have "sub_think (if rest \<noteq> [] \<and> last rest = NL then [NL] else []) =
      (if rest \<noteq> [] \<and> last rest = NL then [NL] else [])"
    by (simp add: sub_think_NL)
  finally show ?thesis .
qed

lemma strip_unclosed:
  assumes pre: "\<not> occurs_ci ''<think>'' pre" and m: "is_marker ''<think>'' m"
    and rest: "\<not> occurs_ci ''</think>'' rest"
  shows "strip (Some (pre @ m @ rest)) = strip (Some pre)"
proof -
  have p: "sub_think pre = pre"
    by (rule sub_think_id [OF pre])
  show ?thesis
  proof (cases "rest \<noteq> [] \<and> last rest = NL")
    case False
    then have "sub_think (pre @ m @ rest) = pre"
      using sub_think_unclosed [OF assms] by auto
    then show ?thesis
      using p by (simp add: strip_def)
  next
    case True
    then have "sub_think (pre @ m @ rest) = pre @ [NL]"
      using sub_think_unclosed [OF assms] by simp
    moreover have "py_strip (sub_sources (pre @ [NL])) = py_strip (sub_sources pre)"
      using sub_sources_snoc_NL [of pre] py_strip_snoc [OF isspace_NL, of "sub_sources pre"]
      by auto
    ultimately show ?thesis using p by (simp add: strip_def)
  qed
qed

lemma think_end_match:
  assumes "ci_prefix ''</think>'' (c # cs)"
  shows "think_end (c # cs) = drop 8 (c # cs)"
  by (subst think_end.simps(2)) (simp only: assms if_True)

lemma think_end_at_close:
  assumes "\<not> occurs_ci ''</think>'' body" and "ci_prefix ''</think>'' (CHR ''<'' # r)"
  shows "think_end (body @ CHR ''<'' # r) = drop 8 (CHR ''<'' # r)"
  using assms(1)
proof (induction body)
  case Nil
  show ?case using think_end_match [OF assms(2)] by simp
next
  case (Cons c cs)
  have n: "\<not> ci_prefix ''</think>'' (c # cs)" and o: "\<not> occurs_ci ''</think>'' cs"
    using Cons.prems unfolding occurs_ci.simps by blast+
  have "\<not> ci_prefix ''</think>'' (c # (cs @ CHR ''<'' # r))"
    using close_not_straddling [OF n, of r]
    by (simp only: append_Cons append_Nil list.distinct not_False_eq_True)
  moreover have "c # (cs @ CHR ''<'' # r) \<noteq> [NL]"
    by simp
  ultimately have "think_end (c # (cs @ CHR ''<'' # r)) = think_end (cs @ CHR ''<'' # r)"
    by (rule think_end_skip)
  then show ?case using Cons.IH [OF o] by simp
qed

lemma sub_think_closed:
  assumes pre: "\<not> occurs_ci ''<think>'' pre" and m: "is_marker ''<think>'' m"
    and body: "\<not> occurs_ci ''</think>'' body" and e: "is_marker ''</think>'' e"
  shows "sub_think (pre @ m @ body @ e @ post) = pre @ sub_think post"
proof -
  from m have len: "length m = 7" and cp: "ci_prefix ''<think>'' m"
    by (simp_all add: is_marker_def)
  from e have elen: "length e = 8" and ecp: "ci_prefix ''</think>'' e"
    by (simp_all add: is_marker_def)
  from cp obtain r where r: "m = CHR ''<'' # r" by (rule marker_lt)
  from ecp obtain r' where r': "e = CHR ''<'' # r'" by (rule marker_lt)
  have "sub_think (pre @ m @ body @ e @ post) = pre @ sub_think (m @ body @ e @ post)"
    using sub_think_no_open [OF pre, of "r @ body @ e @ post"] by (simp add: r)
  also have "sub_think (m @ body @ e @ post) = sub_think (think_end (drop 7 (m @ body @ e @ post)))"
    using sub_think_match [of "CHR ''<''" "r @ body @ e @ post"]
      ci_prefix_appendI [OF cp, of "body @ e @ post"]
    by (simp only: r append_Cons)
  also have "drop 7 (m @ body @ e @ post) = body @ e @ post"
    using len by simp
  also have "think_end (body @ e @ post) = post"
    using think_end_at_close [OF body, of "r' @ post"] ci_prefix_appendI [OF ecp, of post] elen
    by (simp add: r')
  finally show ?thesis .
qed


lemma ci_prefix_sub_think:
  "ci_prefix p t \<Longrightarrow> CHR ''<'' \<notin> lower ` set p \<Longrightarrow> ci_prefix p (sub_think t)"
proof (induction p t rule: ci_prefix.induct)
  case (1 s)
  show ?case by simp
next
  case (2 p ps)
  then show ?case by simp
next
  case (3 p ps c cs)
  from "3.prems" have l: "lower p = lower c" and t: "ci_prefix ps cs"
    and np: "CHR ''<'' \<noteq> lower p" and nps: "CHR ''<'' \<notin> lower ` set ps"
    by auto
  have "lower (CHR ''<'') = CHR ''<''" by (simp add: lower_def code_def)
  with l np have "\<not> ci_prefix ''<think>'' (c # cs)" by simp
  then have "sub_think (c # cs) = c # sub_think cs" by (rule sub_think_skip)
  then show ?case using l "3.IH" [OF t nps] by simp
qed

lemma sources_marker_sub_think: "sources_marker t \<Longrightarrow> sources_marker (sub_think t)"
  unfolding sources_marker_def
  using ci_prefix_sub_think [of "''sources:''" t] ci_prefix_sub_think [of "''source:''" t]
  by (auto simp: lower_def code_def)

lemma sub_think_before_NL:
  "\<not> occurs_ci ''<think>'' body \<Longrightarrow> sub_think (body @ NL # t) = body @ NL # sub_think t"
proof (induction body)
  case Nil
  have "\<not> ci_prefix ''<think>'' (NL # t)" by (simp add: lower_def code_def NL_def)
  then show ?case using sub_think_skip by simp
next
  case (Cons c cs)
  have n: "\<not> ci_prefix ''<think>'' (c # cs)" and o: "\<not> occurs_ci ''<think>'' cs"
    using Cons.prems unfolding occurs_ci.simps by blast+
  have "ci_prefix ''<think>'' ((c # cs) @ NL # t) = ci_prefix ''<think>'' (c # cs)"
    by (rule ci_prefix_append_other) (simp add: lower_def code_def NL_def)
  with n have "\<not> ci_prefix ''<think>'' (c # (cs @ NL # t))"
    by (simp only: append_Cons simp_thms)
  then have "sub_think (c # (cs @ NL # t)) = c # sub_think (cs @ NL # t)"
    by (rule sub_think_skip)
  then show ?case using Cons.IH [OF o] by simp
qed

lemma sub_sources_heading:
  assumes "sources_marker t"
  shows "\<not> occurs_sources body \<Longrightarrow>
    \<exists>n. sub_sources (body @ NL # t) = take n body \<and> drop n body = replicate (length body - n) NL"
proof (induction body)
  case Nil
  from assms have "dropWhile (\<lambda>x. x = NL) t = t"
    by (cases t) (auto simp: sources_marker_def lower_def code_def NL_def)
  with assms show ?case by simp
next
  case (Cons c cs)
  from Cons.prems have n: "\<not> (c = NL \<and> sources_marker (dropWhile (\<lambda>x. x = NL) cs))"
    and o: "\<not> occurs_sources cs"
    by simp_all
  from Cons.IH [OF o] obtain k where k: "sub_sources (cs @ NL # t) = take k cs"
      "drop k cs = replicate (length cs - k) NL" by blast
  show ?case
  proof (cases "c = NL \<and> sources_marker (dropWhile (\<lambda>x. x = NL) (cs @ NL # t))")
    case False
    then have "sub_sources ((c # cs) @ NL # t) = take (Suc k) (c # cs)"
      using k by auto
    moreover have "drop (Suc k) (c # cs) = replicate (length (c # cs) - Suc k) NL"
      using k by simp
    ultimately show ?thesis by blast
  next
    case True
    have all: "\<forall>y\<in>set cs. y = NL"
    proof (rule ccontr)
      assume "\<not> (\<forall>y\<in>set cs. y = NL)"
      then have "dropWhile (\<lambda>x. x = NL) (cs @ NL # t) = dropWhile (\<lambda>x. x = NL) cs @ NL # t"
        by (auto simp: dropWhile_append)
      with True have "sources_marker (dropWhile (\<lambda>x. x = NL) cs)"
        by (simp add: sources_marker_append_NL)
      with n True show False by simp
    qed
    then have "c # cs = replicate (length (c # cs)) NL"
      using True by (simp add: replicate_length_same [symmetric] list_eq_iff_nth_eq nth_Cons')
    moreover from True have "sub_sources ((c # cs) @ NL # t) = []" by simp
    ultimately have "sub_sources ((c # cs) @ NL # t) = take 0 (c # cs) \<and>
        drop 0 (c # cs) = replicate (length (c # cs) - 0) NL"
      by simp
    then show ?thesis by blast
  qed
qed

lemma strip_sources:
  assumes b: "\<not> occurs_ci ''<think>'' body" and s: "\<not> occurs_sources body"
    and t: "sources_marker t"
  shows "strip (Some (body @ NL # t)) = py_strip body"
proof -
  have "sub_think (body @ NL # t) = body @ NL # sub_think t"
    by (rule sub_think_before_NL [OF b])
  moreover obtain n where n: "sub_sources (body @ NL # sub_think t) = take n body"
      "drop n body = replicate (length body - n) NL"
    using sub_sources_heading [OF sources_marker_sub_think [OF t] s] by blast
  moreover have "py_strip (take n body) = py_strip body"
    using py_strip_replicate [OF isspace_NL, of "take n body" "length body - n"] n(2)
      append_take_drop_id [of n body] by metis
  ultimately show ?thesis by (simp add: strip_def)
qed

lemma strip_edges:
  "strip t = [] \<or> (\<not> isspace (hd (strip t)) \<and> \<not> isspace (last (strip t)))"
  using py_strip_edges unfolding strip_def Let_def by blast

text \<open>
  C10. The stripping step \<open>strip\<close> removes a reasoning segment that is opened and never
  closed: when the text before the opening marker holds no opening marker and the text
  behind it no closing marker, the result is the result for the text before the marker,
  so everything from the marker to the end of the text is gone (the first substitution
  leaves at most a final newline, which the last step strips). A closed segment is
  deleted by the first substitution, marker to marker; a trailing sources section is
  deleted from the newline before its heading; the result has no whitespace at either
  end; and \<^verbatim>\<open>None\<close> gives the empty text. Markers match in any case. The function is
  total: none of its steps (\<^verbatim>\<open>text or ""\<close>, the two substitutions, \<^verbatim>\<open>str.strip\<close>)
  raises on a string or on \<^verbatim>\<open>None\<close>.
\<close>

theorem strip_unclosed_think:
  "(\<not> occurs_ci ''<think>'' pre \<and> is_marker ''<think>'' m \<and> \<not> occurs_ci ''</think>'' rest \<longrightarrow>
      strip (Some (pre @ m @ rest)) = strip (Some pre) \<and>
      sub_think (pre @ m @ rest) = pre @ (if rest \<noteq> [] \<and> last rest = NL then [NL] else [])) \<and>
   (\<not> occurs_ci ''<think>'' pre \<and> is_marker ''<think>'' m \<and> \<not> occurs_ci ''</think>'' body \<and>
    is_marker ''</think>'' e \<longrightarrow>
      sub_think (pre @ m @ body @ e @ post) = pre @ sub_think post) \<and>
   (\<not> occurs_ci ''<think>'' pre \<and> \<not> occurs_sources pre \<and> sources_marker t \<longrightarrow>
      strip (Some (pre @ NL # t)) = py_strip pre) \<and>
   (strip x = [] \<or> (\<not> isspace (hd (strip x)) \<and> \<not> isspace (last (strip x)))) \<and>
   strip None = []"
proof -
  have "strip None = []"
    by (simp add: strip_def py_strip_def py_rstrip_def)
  then show ?thesis
    using strip_unclosed [of pre m rest] sub_think_unclosed [of pre m rest]
      sub_think_closed [of pre m body e post] strip_sources [of pre t] strip_edges [of x]
    by blast
qed

theorem strip_unclosed_think_witness:
  "\<not> occurs_ci ''<think>'' ''Use the Wall tool. [1] '' \<and> is_marker ''<think>'' ''<Think>'' \<and>
   \<not> occurs_ci ''</think>'' (''the user wants'' @ [NL]) \<and>
   strip (Some (''Use the Wall tool. [1] '' @ ''<Think>'' @ ''the user wants'' @ [NL]))
     = ''Use the Wall tool. [1]'' \<and>
   \<not> occurs_ci ''</think>'' ''plan'' \<and> is_marker ''</think>'' ''</THINK>'' \<and>
   sub_think (''Use the Wall tool. [1] '' @ ''<Think>'' @ ''plan'' @ ''</THINK>'' @ ''Done.'')
     = ''Use the Wall tool. [1] Done.'' \<and>
   \<not> occurs_sources ''Use the Wall tool. [1] '' \<and> sources_marker ''Sources: [1] Walls'' \<and>
   strip (Some (''Use the Wall tool. [1] '' @ NL # ''Sources: [1] Walls''))
     = ''Use the Wall tool. [1]'' \<and>
   strip (Some '' ok '') = ''ok''"
proof -
  let ?pre = "''Use the Wall tool. [1] ''"
  have h1: "\<not> occurs_ci ''<think>'' ?pre"
    by code_simp
  have h2: "is_marker ''<think>'' ''<Think>''"
    by code_simp
  have h3: "\<not> occurs_ci ''</think>'' (''the user wants'' @ [NL])"
    by code_simp
  have h4: "\<not> occurs_ci ''</think>'' ''plan''"
    by code_simp
  have h5: "is_marker ''</think>'' ''</THINK>''"
    by code_simp
  have h6: "\<not> occurs_sources ?pre"
    by code_simp
  have h7: "sources_marker ''Sources: [1] Walls''"
    by code_simp
  have v1: "strip (Some ?pre) = ''Use the Wall tool. [1]''"
    by code_simp
  have v2: "py_strip ?pre = ''Use the Wall tool. [1]''"
    by code_simp
  have v3: "?pre @ sub_think ''Done.'' = ''Use the Wall tool. [1] Done.''"
    by code_simp
  have v4: "strip (Some '' ok '') = ''ok''"
    by code_simp
  note t = strip_unclosed_think [of ?pre "''<Think>''" "''the user wants'' @ [NL]" "''plan''"
      "''</THINK>''" "''Done.''" "''Sources: [1] Walls''" "Some '' ok ''"]
  from t h1 h2 h3 have "strip (Some (?pre @ ''<Think>'' @ ''the user wants'' @ [NL])) = strip (Some ?pre)"
    by blast
  then have c1: "strip (Some (?pre @ ''<Think>'' @ ''the user wants'' @ [NL]))
      = ''Use the Wall tool. [1]''"
    by (rule trans) (rule v1)
  from t h1 h2 h4 h5 have "sub_think (?pre @ ''<Think>'' @ ''plan'' @ ''</THINK>'' @ ''Done.'')
      = ?pre @ sub_think ''Done.''"
    by blast
  then have c2: "sub_think (?pre @ ''<Think>'' @ ''plan'' @ ''</THINK>'' @ ''Done.'')
      = ''Use the Wall tool. [1] Done.''"
    by (rule trans) (rule v3)
  from t h1 h6 h7 have "strip (Some (?pre @ NL # ''Sources: [1] Walls'')) = py_strip ?pre"
    by blast
  then have c3: "strip (Some (?pre @ NL # ''Sources: [1] Walls'')) = ''Use the Wall tool. [1]''"
    by (rule trans) (rule v2)
  show ?thesis
    by (intro conjI h1 h2 h3 h4 h5 h6 h7 c1 c2 c3 v4)
qed

section \<open>Properties of the orchestrator\<close>

lemma query_calls: "snd (query env calls q k mode alpha) = calls @ [Search q k (strategy_of mode alpha)]"
  by (simp add: query_def Let_def split: sum.splits)

lemma query_weaviate_calls:
  "snd (query_weaviate env calls q k mode alpha) = calls @ [Search q k (strategy_of mode alpha)]"
  by (simp add: query_weaviate_def Let_def split: sum.splits)

lemma try_search_calls:
  "snd (try_search env calls q alpha m n) = calls @ [Search q n (strategy_of m alpha)]"
  using query_weaviate_calls [of env calls q n m alpha]
  by (cases "query_weaviate env calls q n m alpha") (auto simp: try_search_def split: sum.splits)

lemma search_loop_first_accepted:
  "search_loop env q alpha k ms hs calls = first_accepted env q alpha (attempts ms k) hs calls"
  by (induction ms arbitrary: hs calls) (simp_all add: attempts_def split: prod.splits)

lemma first_accepted_calls:
  "\<exists>n\<le>length sched.
     snd (first_accepted env q alpha sched hs calls)
       = calls @ map (\<lambda>(m, n). Search q n (strategy_of m alpha)) (take n sched) \<and>
     (case snd (fst (first_accepted env q alpha sched hs calls)) of
        None \<Rightarrow> n = length sched
      | Some m \<Rightarrow> 0 < n \<and> m = fst (sched ! (n - 1)) \<and>
          fst (fst (first_accepted env q alpha sched hs calls)) \<noteq> [] \<and>
          confident_enough (thresholds env) (py_float env)
            (fst (fst (first_accepted env q alpha sched hs calls))) m q)"
proof (induction sched arbitrary: hs calls)
  case Nil
  show ?case by simp
next
  case (Cons a sched)
  obtain m k where a: "a = (m, k)" by (cases a)
  obtain hs1 calls1 where t: "try_search env calls q alpha m k = (hs1, calls1)"
    by (cases "try_search env calls q alpha m k")
  have c1: "calls1 = calls @ [Search q k (strategy_of m alpha)]"
    using try_search_calls [of env calls q alpha m k] t by simp
  show ?case
  proof (cases "hs1 \<noteq> [] \<and> confident_enough (thresholds env) (py_float env) hs1 m q")
    case True
    then have "first_accepted env q alpha (a # sched) hs calls = ((hs1, Some m), calls1)"
      using a t by simp
    then show ?thesis using True c1 a by (intro exI [of _ 1]) simp
  next
    case False
    then have f: "first_accepted env q alpha (a # sched) hs calls
        = first_accepted env q alpha sched hs1 calls1"
      using a t by auto
    from Cons.IH [of hs1 calls1] obtain n where n: "n \<le> length sched"
      "snd (first_accepted env q alpha sched hs1 calls1)
         = calls1 @ map (\<lambda>(m, n). Search q n (strategy_of m alpha)) (take n sched)"
      "(case snd (fst (first_accepted env q alpha sched hs1 calls1)) of
        None \<Rightarrow> n = length sched
      | Some m \<Rightarrow> 0 < n \<and> m = fst (sched ! (n - 1)) \<and>
          fst (fst (first_accepted env q alpha sched hs1 calls1)) \<noteq> [] \<and>
          confident_enough (thresholds env) (py_float env)
            (fst (fst (first_accepted env q alpha sched hs1 calls1))) m q)"
      by blast
    show ?thesis
      using n c1 a unfolding f
      by (intro exI [of _ "Suc n"]) (auto split: option.splits)
  qed
qed

lemma modes_to_try_candidates:
  "mode \<in> {''hybrid'', ''bm25'', ''vector''} \<Longrightarrow> modes_to_try mode = candidates mode"
  by (auto simp: modes_to_try_def candidates_def)

section \<open>Properties of the pipelines\<close>

lemma rag_answer_search_error:
  "query env calls q k mode alpha = (Inl e, calls1) \<Longrightarrow>
   rag_answer env calls q mode alpha k rc = (Inl e, calls1)"
  by (simp add: rag_answer_def)

lemma rag_answer_rejected:
  "query env calls q k mode alpha = (Inr hs, calls1) \<Longrightarrow>
   \<not> ok (thresholds env) (py_float env) hs mode \<Longrightarrow>
   rag_answer env calls q mode alpha k rc = (Inr (sentinel, [], make_diag env hs mode alpha k), calls1)"
  by (simp add: rag_answer_def)

lemma rag_answer_accepted:
  "query env calls q k mode alpha = (Inr hs, calls1) \<Longrightarrow>
   ok (thresholds env) (py_float env) hs mode \<Longrightarrow>
   rag_answer env calls q mode alpha k rc =
     (case generate_answer env calls1 q (fst (ctx hs)) of
        (Inl e, calls2) \<Rightarrow>
          (Inr (''Generation error: '' @ message e, [], make_diag env hs mode alpha k), calls2)
      | (Inr answer, calls2) \<Rightarrow>
          (Inr (post_check rc answer (snd (ctx hs)) (make_diag env hs mode alpha k)), calls2))"
  by (simp add: rag_answer_def Let_def)






lemma generate_answer_first:
  assumes "ollama_generate env calls (prompt q c) 1200 = Inr raw1"
    and "py_strip (strip (Some raw1)) \<noteq> []"
  shows "generate_answer env calls q c = (Inr (strip (Some raw1)), calls @ [Generate (prompt q c) 1200])"
  using assms by (simp add: generate_answer_def gen_def Let_def)

lemma generate_answer_first_raises:
  assumes "ollama_generate env calls (prompt q c) 1200 = Inl e"
  shows "generate_answer env calls q c = (Inl e, calls @ [Generate (prompt q c) 1200])"
  using assms by (simp add: generate_answer_def gen_def)

lemma post_check_clean:
  "(rc \<longrightarrow> search_citation a) \<Longrightarrow> \<not> search_autocad a \<Longrightarrow> post_check rc a src d = (a, src, d)"
  by (auto simp: post_check_def)


lemma search_loop_calls:
  "filter is_generate (snd (search_loop env q alpha k ms hs calls)) = filter is_generate calls"
proof -
  obtain n where "snd (first_accepted env q alpha (attempts ms k) hs calls)
      = calls @ map (\<lambda>(m, n). Search q n (strategy_of m alpha)) (take n (attempts ms k))"
    using first_accepted_calls [of "attempts ms k" env q alpha hs calls] by blast
  moreover have "filter is_generate (map (\<lambda>(m, n). Search q n (strategy_of m alpha)) xs) = []" for xs
    by (induction xs) auto
  ultimately show ?thesis by (simp add: search_loop_first_accepted)
qed

lemma search_loop_exhausted:
  assumes "\<forall>cs m n. \<not> confident_enough (thresholds env) (py_float env)
                        (fst (try_search env cs q alpha m n)) m q"
  shows "snd (fst (search_loop env q alpha k ms hs calls)) = None"
proof (induction ms arbitrary: hs calls)
  case Nil
  show ?case by simp
next
  case (Cons m ms)
  obtain hs1 calls1 where 1: "try_search env calls q alpha m k = (hs1, calls1)"
    by (cases "try_search env calls q alpha m k")
  obtain hs2 calls2 where 2: "try_search env calls1 q alpha m (min (2 * k) 15) = (hs2, calls2)"
    by (cases "try_search env calls1 q alpha m (min (2 * k) 15)")
  from assms 1 have n1: "\<not> confident_enough (thresholds env) (py_float env) hs1 m q"
    by (metis fst_conv)
  from assms 2 have n2: "\<not> confident_enough (thresholds env) (py_float env) hs2 m q"
    by (metis fst_conv)
  show ?case using 1 2 n1 n2 Cons.IH [of hs2 calls2] by simp
qed

lemma py_max_const: "xs \<noteq> [] \<Longrightarrow> \<forall>x\<in>set xs. x = c \<Longrightarrow> py_max xs = c"
proof -
  assume ne: "xs \<noteq> []" and all: "\<forall>x\<in>set xs. x = c"
  then have "set xs = {c}" by (cases xs) auto
  then show ?thesis using py_max_Max [OF ne] by simp
qed

lemma low_scores_rejected:
  assumes "\<forall>h\<in>set hs. conf float h = 0.1"
  shows "\<not> ok default_config float hs mode" "\<not> confident_enough default_config float hs mode q"
proof -
  have "hs \<noteq> [] \<Longrightarrow> py_max (map (conf float) hs) = 0.1"
    using assms by (intro py_max_const) auto
  then show "\<not> ok default_config float hs mode" "\<not> confident_enough default_config float hs mode q"
    by (auto simp: ok_def confident_enough_def default_config_def Let_def hit_confidence_conf [abs_def])
qed

lemma query_sample:
  "query (sample_env (\<lambda>c. found hs) g) cs q k m alpha = (Inr hs, cs @ [Search q k (strategy_of m alpha)])"
  by (simp add: query_def sample_env_def found_def get_hits_def)

lemma sample_env_sel:
  "thresholds (sample_env w g) = default_config" "py_float (sample_env w g) = sample_float"
  "ollama_generate (sample_env w g) cs p n = g cs" "weaviate_do (sample_env w g) cs q k s = w cs"
  by (simp_all add: sample_env_def)

lemma conf_sample_hit: "conf sample_float (sample_hit s) = s"
  by (simp add: conf_def sample_hit_def additional_or_empty_def)

lemma ok_sample_hit: "ok default_config sample_float [sample_hit 0.9] m"
  by (simp add: ok_def default_config_def conf_sample_hit)

lemma confident_sample_hit: "confident_enough default_config sample_float [sample_hit 0.9] m q"
  by (simp add: confident_enough_def default_config_def hit_confidence_conf conf_sample_hit)


subsection \<open>Citations\<close>

lemma takeWhile_stop: "\<not> P y \<Longrightarrow> takeWhile P (xs @ y # ys) = takeWhile P xs"
  by (induction xs) auto

lemma dropWhile_stop: "\<not> P y \<Longrightarrow> dropWhile P (xs @ y # ys) = dropWhile P xs @ y # ys"
  by (induction xs) auto

lemma search_citation_indices: "search_citation s \<longleftrightarrow> citation_indices s \<noteq> []"
  by (induction s) auto

lemma search_citation_prepend: "search_citation t \<Longrightarrow> search_citation (s @ t)"
  by (induction s) auto

lemma search_citation_extend: "search_citation s \<Longrightarrow> search_citation (s @ w)"
proof (induction s)
  case Nil
  then show ?case by simp
next
  case (Cons c cs)
  show ?case
  proof (cases "c = CHR ''['' \<and> takeWhile isdigit cs \<noteq> [] \<and>
         (case dropWhile isdigit cs of [] \<Rightarrow> False | d # _ \<Rightarrow> d = CHR '']'')")
    case True
    then obtain r where r: "dropWhile isdigit cs = CHR '']'' # r"
      by (auto split: list.splits)
    have nd: "\<not> isdigit (CHR '']'')" by (simp add: isdigit_def code_def)
    have cs: "cs = takeWhile isdigit cs @ CHR '']'' # r"
      using takeWhile_dropWhile_id [of isdigit cs] r by simp
    have e: "cs @ w = takeWhile isdigit cs @ CHR '']'' # (r @ w)"
      using cs by (metis append_Cons append_assoc)
    have "takeWhile isdigit (cs @ w) = takeWhile isdigit cs"
      unfolding e using takeWhile_stop [where P = isdigit and y = "CHR '']''", OF nd]
      by simp
    moreover have "dropWhile isdigit (cs @ w) = CHR '']'' # r @ w"
      unfolding e using dropWhile_stop [where P = isdigit and y = "CHR '']''", OF nd]
      by (auto dest: set_takeWhileD)
    ultimately show ?thesis using True by simp
  next
    case False
    with Cons show ?thesis by auto
  qed
qed


lemma citation_indices_skip: "c \<noteq> CHR ''['' \<Longrightarrow> citation_indices (c # cs) = citation_indices cs"
  by simp

lemma citation_indices_lstrip: "citation_indices (dropWhile isspace s) = citation_indices s"
proof (induction s)
  case Nil
  show ?case by simp
next
  case (Cons c cs)
  have "isspace c \<Longrightarrow> c \<noteq> CHR ''[''"
    by (auto simp: isspace_def code_def)
  with Cons show ?case by simp
qed

lemma citation_indices_append_one:
  "citation_indices (s @ '' [1]'') = citation_indices s @ [1]"
proof (induction s)
  case Nil
  show ?case by code_simp
next
  case (Cons c cs)
  have ns: "\<not> isdigit (CHR '' '')" by (simp add: isdigit_def code_def)
  have t: "takeWhile isdigit (cs @ '' [1]'') = takeWhile isdigit cs"
    using takeWhile_stop [where P = isdigit and y = "CHR '' ''", OF ns] by simp
  have d: "dropWhile isdigit (cs @ '' [1]'') = dropWhile isdigit cs @ '' [1]''"
    using dropWhile_stop [where P = isdigit and y = "CHR '' ''", OF ns] by simp
  have "(case xs @ '' [1]'' of [] \<Rightarrow> False | d # _ \<Rightarrow> d = CHR '']'')
      = (case xs of [] \<Rightarrow> False | d # _ \<Rightarrow> d = CHR '']'')" for xs
    by (cases xs) simp_all
  then show ?case
    using Cons.IH unfolding append_Cons citation_indices.simps t d by simp
qed

lemma py_rstrip_closing: "py_rstrip (z @ '']'') = z @ '']''"
  by (simp add: py_rstrip_def isspace_def code_def)

lemma lstrip_append_one: "\<exists>z. dropWhile isspace (r @ '' [1]'') = z @ '']''"
proof (cases "\<forall>x\<in>set r. isspace x")
  case True
  then have "dropWhile isspace (r @ '' [1]'') = ''[1]''"
    by (simp add: dropWhile_append isspace_def code_def)
  then show ?thesis by (intro exI [of _ "''[1''"]) simp
next
  case False
  then have "dropWhile isspace (r @ '' [1]'') = dropWhile isspace r @ '' [1]''"
    by (auto simp: dropWhile_append)
  then show ?thesis by (intro exI [of _ "dropWhile isspace r @ '' [1''"]) simp
qed

lemma appended_citation:
  assumes "\<not> search_citation a"
  shows "citation_indices (py_strip (py_rstrip a @ '' [1]'')) = [1]"
proof -
  obtain t where t: "a = py_rstrip a @ t" using py_rstrip_prefix by blast
  have "\<not> search_citation (py_rstrip a)"
    using assms search_citation_extend [of "py_rstrip a" t] t by auto
  then have n: "citation_indices (py_rstrip a) = []"
    by (simp add: search_citation_indices)
  obtain z where z: "dropWhile isspace (py_rstrip a @ '' [1]'') = z @ '']''"
    using lstrip_append_one by blast
  have "py_strip (py_rstrip a @ '' [1]'') = dropWhile isspace (py_rstrip a @ '' [1]'')"
    unfolding py_strip_def z by (rule py_rstrip_closing)
  then show ?thesis
    using n by (simp only: citation_indices_lstrip citation_indices_append_one append_Nil)
qed

lemma search_citation_appended: "search_citation (py_strip (py_rstrip a @ '' [1]''))"
proof -
  obtain z where z: "dropWhile isspace (py_rstrip a @ '' [1]'') = z @ '']''"
    using lstrip_append_one by blast
  have p: "py_strip (py_rstrip a @ '' [1]'') = dropWhile isspace (py_rstrip a @ '' [1]'')"
    unfolding py_strip_def z by (rule py_rstrip_closing)
  have "citation_indices (py_rstrip a @ '' [1]'') \<noteq> []"
    by (simp only: citation_indices_append_one) simp
  then show ?thesis
    by (simp only: p search_citation_indices citation_indices_lstrip not_False_eq_True)
qed

lemma post_check_sources:
  assumes "post_check True a src0 d0 = (answer, src, d)" and "src \<noteq> []"
  shows "search_citation answer \<and> d = d0 \<and> src = src0"
proof (cases "search_citation a")
  case True
  with assms show ?thesis
    by (auto simp: post_check_def split: if_splits)
next
  case False
  with assms show ?thesis
    using search_citation_appended [of a]
    by (auto simp: post_check_def split: if_splits)
qed

lemma ok_nonempty: "ok cfg float hs mode \<Longrightarrow> hs \<noteq> []"
  by (auto simp: ok_def)

lemma rag_answer_sources:
  assumes "rag_answer env calls q mode alpha k True = (Inr (answer, src, d), after)"
    and "src \<noteq> []"
  shows "search_citation answer \<and> 1 \<le> diag_hits d"
proof -
  obtain r calls1 where qr: "query env calls q k mode alpha = (r, calls1)"
    by (cases "query env calls q k mode alpha")
  show ?thesis
  proof (cases r)
    case (Inl e)
    with qr assms show ?thesis by (simp add: rag_answer_def)
  next
    case (Inr hs)
    show ?thesis
    proof (cases "ok (thresholds env) (py_float env) hs mode")
      case False
      with qr Inr assms show ?thesis by (simp add: rag_answer_def)
    next
      case True
      obtain g calls2 where g: "generate_answer env calls1 q (fst (ctx hs)) = (g, calls2)"
        by (cases "generate_answer env calls1 q (fst (ctx hs))")
      show ?thesis
      proof (cases g)
        case (Inl e)
        with qr Inr True g assms show ?thesis by (simp add: rag_answer_def)
      next
        case (Inr a)
        with qr \<open>r = Inr hs\<close> True g assms
        have "post_check True a (snd (ctx hs)) (make_diag env hs mode alpha k) = (answer, src, d)"
          by (simp add: rag_answer_def)
        from post_check_sources [OF this assms(2)]
        have "search_citation answer" and "d = make_diag env hs mode alpha k" by simp_all
        moreover have "hs \<noteq> []" using True by (rule ok_nonempty)
        ultimately show ?thesis by (cases hs) (simp_all add: make_diag_def)
      qed
    qed
  qed
qed

text \<open>
  C5, as amended. When citations are required, an answer that \<open>rag_answer\<close> returns with
  sources contains a bracketed citation, and the sources list at least one hit. When the
  generated text has no citation the pipeline appends \<open>[1]\<close>, and 1 is then the only
  citation index of the answer. A generated text that has a citation is returned as it
  is: its indices are not compared with the number of sources.
\<close>

theorem citation_present:
  "(rag_answer env calls q mode alpha k True = (Inr (answer, src, d), after) \<and> src \<noteq> [] \<longrightarrow>
      search_citation answer \<and> 1 \<le> diag_hits d) \<and>
   (\<not> search_citation a \<and> src \<noteq> [] \<and> \<not> search_autocad (py_strip (py_rstrip a @ '' [1]'')) \<longrightarrow>
      post_check True a src d = (py_strip (py_rstrip a @ '' [1]''), src, d) \<and>
      citation_indices (py_strip (py_rstrip a @ '' [1]'')) = [1]) \<and>
   (search_citation a \<and> \<not> search_autocad a \<longrightarrow> post_check rc a src d = (a, src, d))"
proof -
  have 1: "rag_answer env calls q mode alpha k True = (Inr (answer, src, d), after) \<and> src \<noteq> [] \<longrightarrow>
      search_citation answer \<and> 1 \<le> diag_hits d"
    using rag_answer_sources by blast
  have 2: "\<not> search_citation a \<and> src \<noteq> [] \<and> \<not> search_autocad (py_strip (py_rstrip a @ '' [1]'')) \<longrightarrow>
      post_check True a src d = (py_strip (py_rstrip a @ '' [1]''), src, d) \<and>
      citation_indices (py_strip (py_rstrip a @ '' [1]'')) = [1]"
    using appended_citation [of a] by (auto simp: post_check_def)
  have 3: "search_citation a \<and> \<not> search_autocad a \<longrightarrow> post_check rc a src d = (a, src, d)"
    by (simp add: post_check_clean)
  from 1 2 3 show ?thesis by blast
qed

theorem citation_present_witness:
  "rag_answer (sample_env (\<lambda>c. found [sample_hit 0.9]) (\<lambda>c. Inr ''Use the Wall tool.''))
     [] ''q'' ''hybrid'' 0.4 10 True
   = (Inr (''Use the Wall tool. [1]'', snd (ctx [sample_hit 0.9]),
        make_diag (sample_env (\<lambda>c. found [sample_hit 0.9]) (\<lambda>c. Inr ''Use the Wall tool.''))
          [sample_hit 0.9] ''hybrid'' 0.4 10),
      [Search ''q'' 10 (Hybrid 0.4), Generate (prompt ''q'' (fst (ctx [sample_hit 0.9]))) 1200]) \<and>
   search_citation ''Use the Wall tool. [1]'' \<and>
   citation_indices ''Use the Wall tool. [1]'' = [1] \<and>
   diag_hits (make_diag (sample_env (\<lambda>c. found [sample_hit 0.9]) (\<lambda>c. Inr ''Use the Wall tool.''))
          [sample_hit 0.9] ''hybrid'' 0.4 10) = 1 \<and>
   post_check False ''See [3].'' ''sources'' (make_diag
       (sample_env (\<lambda>c. found [sample_hit 0.9]) (\<lambda>c. Inr ''Use the Wall tool.''))
          [sample_hit 0.9] ''hybrid'' 0.4 10) =
     (''See [3].'', ''sources'', make_diag
       (sample_env (\<lambda>c. found [sample_hit 0.9]) (\<lambda>c. Inr ''Use the Wall tool.''))
          [sample_hit 0.9] ''hybrid'' 0.4 10)"
proof -
  let ?env = "sample_env (\<lambda>c. found [sample_hit 0.9]) (\<lambda>c. Inr ''Use the Wall tool.'')"
  let ?d = "make_diag ?env [sample_hit 0.9] ''hybrid'' 0.4 10"
  let ?src = "snd (ctx [sample_hit 0.9 :: sample hit])"
  have r: "rag_answer ?env [] ''q'' ''hybrid'' 0.4 10 True
     = (Inr (''Use the Wall tool. [1]'', ?src, ?d),
        [Search ''q'' 10 (Hybrid 0.4), Generate (prompt ''q'' (fst (ctx [sample_hit 0.9]))) 1200])"
    by code_simp
  have s: "?src \<noteq> []"
    by code_simp
  have h: "\<not> search_citation ''Use the Wall tool.''"
      "\<not> search_autocad (py_strip (py_rstrip ''Use the Wall tool.'' @ '' [1]''))"
      "search_citation ''See [3].''" "\<not> search_autocad ''See [3].''"
    by code_simp+
  have v: "py_strip (py_rstrip ''Use the Wall tool.'' @ '' [1]'') = ''Use the Wall tool. [1]''"
    by code_simp
  note t = citation_present [where env = ?env and calls = "[]" and q = "''q''" and mode = "''hybrid''"
      and alpha = "0.4" and k = 10 and answer = "''Use the Wall tool. [1]''" and src = ?src
      and d = ?d
      and after = "[Search ''q'' 10 (Hybrid 0.4), Generate (prompt ''q'' (fst (ctx [sample_hit 0.9]))) 1200]"
      and a = "''Use the Wall tool.''" and rc = False]
  from t r s have 1: "search_citation ''Use the Wall tool. [1]'' \<and> 1 \<le> diag_hits ?d"
    by blast
  from t h s have "citation_indices (py_strip (py_rstrip ''Use the Wall tool.'' @ '' [1]'')) = [1]"
    by blast
  then have 2: "citation_indices ''Use the Wall tool. [1]'' = [1]"
    unfolding v .
  have 3: "diag_hits ?d = 1"
    by (simp add: make_diag_def)
  have 4: "post_check False ''See [3].'' ''sources'' ?d = (''See [3].'', ''sources'', ?d)"
    using citation_present [where a = "''See [3].''" and rc = False and src = "''sources''" and d = ?d
        and env = ?env and calls = "[]" and q = "''q''" and mode = "''hybrid''"
        and alpha = "0.4" and k = 10 and answer = "''Use the Wall tool. [1]''"
        and after = "[]"] h
    by blast
  from r 1 2 3 4 show ?thesis by blast
qed

text \<open>
  C5 as stated fails: with one hit, hence one source entry, and the generated text
  \<^verbatim>\<open>Set grid spacing to 1200mm. [7]\<close>, the pipeline returns that text, whose citation
  index 7 names no source.
\<close>

theorem citation_index_not_checked:
  "fst (rag_answer (sample_env (\<lambda>c. found [sample_hit 0.9])
          (\<lambda>c. Inr ''Set grid spacing to 1200mm. [7]''))
        [] ''grid spacing'' ''hybrid'' 0.4 10 True)
     = Inr (''Set grid spacing to 1200mm. [7]'',
            ''- [1] Curtain walls (chunk 3)'' @ [NL] @ ''  https://example.org/walls'',
            \<lparr>diag_hits = 1, diag_best_conf = 0.9, diag_mode = ''hybrid'', diag_alpha = 0.4,
               diag_k = 10\<rparr>) \<and>
   citation_indices ''Set grid spacing to 1200mm. [7]'' = [7] \<and>
   \<not> list_all (\<lambda>i. 1 \<le> i \<and> i \<le> 1) (citation_indices ''Set grid spacing to 1200mm. [7]'')"
  by code_simp

subsection \<open>Errors of the backends\<close>

lemma rag_answer_generation_error:
  assumes "query env calls q k mode alpha = (Inr hs, searched)"
    and "ok (thresholds env) (py_float env) hs mode"
    and "generate_answer env searched q (fst (ctx hs)) = (Inl e, after)"
  shows "rag_answer env calls q mode alpha k rc
     = (Inr (''Generation error: '' @ message e, [], make_diag env hs mode alpha k), after)"
  using assms by (simp add: rag_answer_accepted)

lemma generation_error_not_sentinel: "''Generation error: '' @ m \<noteq> sentinel"
  by (simp add: sentinel_def)

lemma try_search_raises:
  "weaviate_do env calls q n (strategy_of m alpha) = Inl e \<Longrightarrow>
   try_search env calls q alpha m n = ([], calls @ [Search q n (strategy_of m alpha)])"
  by (simp add: try_search_def query_weaviate_def Let_def)

lemma query_raises:
  "weaviate_do env calls q k (strategy_of mode alpha) = Inl e \<Longrightarrow>
   query env calls q k mode alpha = (Inl e, calls @ [Search q k (strategy_of mode alpha)])"
  by (simp add: query_def Let_def)

lemma get_hits_malformed:
  "get_hits None = Inr []" "get_hits (Some Absent) = Inr []" "get_hits (Some (Val Absent)) = Inr []"
  "get_hits (Some (Val Null)) = Inr []" "get_hits (Some (Val (Val Absent))) = Inr []"
  "get_hits (Some (Val (Val Null))) = Inr []" "get_hits (Some Null) = Inl attribute_error"
  by (simp_all add: get_hits_def)

lemma try_search_sample:
  "try_search (sample_env (\<lambda>c. found hs) g) cs q alpha m n
     = (hs, cs @ [Search q n (strategy_of m alpha)])"
  by (simp add: try_search_def query_weaviate_def sample_env_def found_def get_hits_def)

section \<open>Properties of \<^verbatim>\<open>ask\<close> and of the calls made\<close>

subsection \<open>The retrieval path, the questions that reach it, and the calls\<close>

lemma ask_retrieval_exhausted:
  assumes "snd (fst (search_loop env q alpha k (modes_to_try mode) [] calls)) = None"
  shows "ask_retrieval env u calls q mode alpha k
     = ((sentinel, []), snd (search_loop env q alpha k (modes_to_try mode) [] calls))"
  using assms
  by (cases "search_loop env q alpha k (modes_to_try mode) [] calls")
     (auto simp: ask_retrieval_def or_str_def Let_def)

lemma ask_retrieval_generation_error:
  assumes "search_loop env q alpha k (modes_to_try mode) [] calls = ((hs, Some m), searched)"
    and "hs \<noteq> []" and "m \<noteq> []"
    and "ollama_generate env searched (build_prompt u q (fst (build_context u hs))) 600 = Inl e"
    and "\<not> search_citation (''I encountered an error while generating the response: '' @ message e)"
  shows "fst (ask_retrieval env u calls q mode alpha k) = (sentinel, [])"
  using assms by (simp add: ask_retrieval_def or_str_def gen_def Let_def)

lemma ask_retrieval_calls:
  "\<exists>gs. snd (ask_retrieval env u calls q mode alpha k)
          = snd (search_loop env q alpha k (modes_to_try mode) [] calls) @ gs \<and>
        list_all is_generate gs"
proof -
  obtain hs used searched where l:
    "search_loop env q alpha k (modes_to_try mode) [] calls = ((hs, used), searched)"
    by (metis surj_pair)
  show ?thesis
  proof (cases "hs = [] \<or> or_str used [] = []")
    case True
    then have "snd (ask_retrieval env u calls q mode alpha k) = searched @ []"
      using l by (auto simp: ask_retrieval_def Let_def)
    then show ?thesis using l by (intro exI [of _ "[]"]) simp
  next
    case False
    then have "snd (ask_retrieval env u calls q mode alpha k)
        = searched @ [Generate (build_prompt u q (fst (build_context u hs))) 600]"
      using l by (auto simp: ask_retrieval_def gen_def Let_def)
    then show ?thesis using l
      by (intro exI [of _ "[Generate (build_prompt u q (fst (build_context u hs))) 600]"]) simp
  qed
qed

lemma ask_reaches:
  assumes "reaches_retrieval question"
  shows "ask env u calls question mode alpha k
     = ((Some (fst (fst (ask_retrieval env u calls (py_strip question) mode alpha k))),
         snd (fst (ask_retrieval env u calls (py_strip question) mode alpha k))),
        snd (ask_retrieval env u calls (py_strip question) mode alpha k))"
  using assms
  by (cases "detect_smalltalk (py_strip question)")
     (auto simp: ask_def reaches_retrieval_def Let_def split: prod.splits)

lemma ask_canned:
  assumes "\<not> reaches_retrieval question"
  shows "snd (ask env u calls question mode alpha k) = calls \<and>
         snd (fst (ask env u calls question mode alpha k)) = []"
  using assms
  by (cases "detect_smalltalk (py_strip question)")
     (auto simp: ask_def reaches_retrieval_def Let_def split: prod.splits)

lemma generate_answer_calls:
  "\<exists>gs. snd (generate_answer env calls q c) = calls @ gs \<and> list_all is_generate gs"
proof -
  have "snd (generate_answer env calls q c) = calls @ [Generate (prompt q c) 1200] \<or>
      snd (generate_answer env calls q c)
        = calls @ [Generate (prompt q c) 1200, Generate (prompt q c @ brief_suffix) 400]"
    by (auto simp: generate_answer_def gen_def Let_def split: sum.splits)
  then show ?thesis
  proof
    assume "snd (generate_answer env calls q c) = calls @ [Generate (prompt q c) 1200]"
    then show ?thesis by (intro exI [of _ "[Generate (prompt q c) 1200]"]) simp
  next
    assume "snd (generate_answer env calls q c)
        = calls @ [Generate (prompt q c) 1200, Generate (prompt q c @ brief_suffix) 400]"
    then show ?thesis
      by (intro exI [of _ "[Generate (prompt q c) 1200, Generate (prompt q c @ brief_suffix) 400]"])
         simp
  qed
qed

lemma rag_answer_calls:
  "\<exists>gs. snd (rag_answer env calls q mode alpha k rc)
          = calls @ Search q k (strategy_of mode alpha) # gs \<and> list_all is_generate gs"
proof -
  obtain r searched where qr: "query env calls q k mode alpha = (r, searched)"
    by (cases "query env calls q k mode alpha")
  then have s: "searched = calls @ [Search q k (strategy_of mode alpha)]"
    using query_calls [of env calls q k mode alpha] by simp
  show ?thesis
  proof (cases r)
    case (Inl e)
    then have "snd (rag_answer env calls q mode alpha k rc) = searched"
      using qr by (simp add: rag_answer_def)
    then show ?thesis using s by (intro exI [of _ "[]"]) simp
  next
    case (Inr hs)
    show ?thesis
    proof (cases "ok (thresholds env) (py_float env) hs mode")
      case False
      then have "snd (rag_answer env calls q mode alpha k rc) = searched"
        using qr Inr by (simp add: rag_answer_def)
      then show ?thesis using s by (intro exI [of _ "[]"]) simp
    next
      case True
      obtain gs where gs: "snd (generate_answer env searched q (fst (ctx hs))) = searched @ gs"
          "list_all is_generate gs"
        using generate_answer_calls by blast
      have "snd (rag_answer env calls q mode alpha k rc)
          = snd (generate_answer env searched q (fst (ctx hs)))"
        using qr Inr True
        by (cases "generate_answer env searched q (fst (ctx hs))")
           (auto simp: rag_answer_def Let_def split: sum.splits)
      then show ?thesis using gs s by (intro exI [of _ gs]) simp
    qed
  qed
qed

subsection \<open>No accepted attempt\<close>

text \<open>
  C4, as amended. When the retrieval attempt of \<open>rag_answer\<close> fails the gate, the result is
  the sentinel answer with empty sources and the only call made is the search. For a
  question that reaches the retrieval path of \<open>ask\<close>, when no attempt of the loop is
  accepted, \<open>ask\<close> answers the sentinel with empty sources and makes no generation call;
  no attempt is accepted whenever every attempt the backend can answer fails the gate.
  Empty hit sequences fail the gate, and so do, under the default thresholds, hits that
  all have the confidence 0.1. A question that does not reach the retrieval path (an
  empty one, a capabilities question, small talk) is answered with no call at all and
  empty sources.
\<close>

theorem rejected_gives_sentinel:
  "(query env calls q k mode alpha = (Inr hs, searched) \<and> \<not> ok (thresholds env) (py_float env) hs mode \<longrightarrow>
      rag_answer env calls q mode alpha k rc
        = (Inr (sentinel, [], make_diag env hs mode alpha k),
           calls @ [Search q k (strategy_of mode alpha)])) \<and>
   (reaches_retrieval question \<and>
    snd (fst (search_loop env (py_strip question) alpha k (modes_to_try mode) [] calls)) = None \<longrightarrow>
      fst (ask env u calls question mode alpha k) = (Some sentinel, []) \<and>
      filter is_generate (snd (ask env u calls question mode alpha k)) = filter is_generate calls) \<and>
   ((\<forall>cs m n. \<not> confident_enough (thresholds env) (py_float env)
                  (fst (try_search env cs q alpha m n)) m q) \<longrightarrow>
      snd (fst (search_loop env q alpha k (modes_to_try mode) [] calls)) = None) \<and>
   ((\<forall>h\<in>set hs'. conf float h = 0.1) \<longrightarrow>
      \<not> ok default_config float hs' mode \<and> \<not> confident_enough default_config float hs' mode q) \<and>
   \<not> ok cfg float [] mode \<and> \<not> confident_enough cfg float [] mode q \<and>
   (\<not> reaches_retrieval question \<longrightarrow>
      snd (ask env u calls question mode alpha k) = calls \<and>
      snd (fst (ask env u calls question mode alpha k)) = [])"
proof -
  have 1: "query env calls q k mode alpha = (Inr hs, searched) \<and>
      \<not> ok (thresholds env) (py_float env) hs mode \<longrightarrow>
      rag_answer env calls q mode alpha k rc
        = (Inr (sentinel, [], make_diag env hs mode alpha k),
           calls @ [Search q k (strategy_of mode alpha)])"
    using rag_answer_rejected [of env calls q k mode alpha hs searched rc]
      query_calls [of env calls q k mode alpha] by auto
  have 2: "reaches_retrieval question \<and>
      snd (fst (search_loop env (py_strip question) alpha k (modes_to_try mode) [] calls)) = None \<longrightarrow>
      fst (ask env u calls question mode alpha k) = (Some sentinel, []) \<and>
      filter is_generate (snd (ask env u calls question mode alpha k)) = filter is_generate calls"
  proof
    assume a: "reaches_retrieval question \<and>
      snd (fst (search_loop env (py_strip question) alpha k (modes_to_try mode) [] calls)) = None"
    then have r: "ask_retrieval env u calls (py_strip question) mode alpha k
        = ((sentinel, []),
           snd (search_loop env (py_strip question) alpha k (modes_to_try mode) [] calls))"
      by (simp add: ask_retrieval_exhausted)
    have "filter is_generate
        (snd (search_loop env (py_strip question) alpha k (modes_to_try mode) [] calls))
        = filter is_generate calls"
      using search_loop_calls [of env "py_strip question" alpha k "modes_to_try mode" "[]" calls]
      by simp
    then show "fst (ask env u calls question mode alpha k) = (Some sentinel, []) \<and>
      filter is_generate (snd (ask env u calls question mode alpha k)) = filter is_generate calls"
      using a r by (simp add: ask_reaches)
  qed
  have 3: "(\<forall>cs m n. \<not> confident_enough (thresholds env) (py_float env)
                  (fst (try_search env cs q alpha m n)) m q) \<longrightarrow>
      snd (fst (search_loop env q alpha k (modes_to_try mode) [] calls)) = None"
    using search_loop_exhausted [of env q alpha k "modes_to_try mode" "[]" calls] by blast
  have 4: "(\<forall>h\<in>set hs'. conf float h = 0.1) \<longrightarrow>
      \<not> ok default_config float hs' mode \<and> \<not> confident_enough default_config float hs' mode q"
    using low_scores_rejected(1) [of hs' float mode] low_scores_rejected(2) [of hs' float mode q]
    by blast
  have 5: "\<not> ok cfg float [] mode \<and> \<not> confident_enough cfg float [] mode q"
    by (simp add: ok_def confident_enough_def)
  have 6: "\<not> reaches_retrieval question \<longrightarrow>
      snd (ask env u calls question mode alpha k) = calls \<and>
      snd (fst (ask env u calls question mode alpha k)) = []"
    using ask_canned [of question env u calls mode alpha k] by blast
  from 1 2 3 4 5 6 show ?thesis by blast
qed

theorem rejected_gives_sentinel_witness:
  "rag_answer (sample_env (\<lambda>c. found [sample_hit 0.1]) (\<lambda>c. Inr ''x'')) [] ''grid spacing''
      ''bm25'' 0.4 10 True
     = (Inr (sentinel, [],
          make_diag (sample_env (\<lambda>c. found [sample_hit 0.1]) (\<lambda>c. Inr ''x'')) [sample_hit 0.1]
            ''bm25'' 0.4 10),
        [Search ''grid spacing'' 10 Bm25]) \<and>
   reaches_retrieval ''grid spacing'' \<and>
   fst (ask (sample_env (\<lambda>c. found [sample_hit 0.1]) (\<lambda>c. Inr ''x'')) sample_ui []
          ''grid spacing'' ''hybrid'' 0.5 6) = (Some sentinel, []) \<and>
   filter is_generate (snd (ask (sample_env (\<lambda>c. found [sample_hit 0.1]) (\<lambda>c. Inr ''x''))
          sample_ui [] ''grid spacing'' ''hybrid'' 0.5 6)) = [] \<and>
   \<not> reaches_retrieval ''export to pdf'' \<and>
   snd (ask (sample_env (\<lambda>c. found [sample_hit 0.1]) (\<lambda>c. Inr ''x'')) sample_ui []
          ''export to pdf'' ''hybrid'' 0.5 6) = [] \<and>
   snd (fst (ask (sample_env (\<lambda>c. found [sample_hit 0.1]) (\<lambda>c. Inr ''x'')) sample_ui []
          ''export to pdf'' ''hybrid'' 0.5 6)) = []"
proof -
  let ?env = "sample_env (\<lambda>c. found [sample_hit 0.1]) (\<lambda>c. Inr ''x'')"
  let ?q = "''grid spacing''"
  have c: "\<forall>h\<in>set [sample_hit 0.1]. conf sample_float h = 0.1"
    by (simp add: conf_def sample_hit_def additional_or_empty_def)
  have e: "thresholds ?env = default_config" "py_float ?env = sample_float"
    by (simp_all add: sample_env_def)
  have qr: "query ?env [] ?q 10 ''bm25'' 0.4 = (Inr [sample_hit 0.1], [Search ?q 10 Bm25])"
    by (simp add: query_def sample_env_def found_def get_hits_def strategy_of_def)
  have s: "strategy_of ''bm25'' 0.4 = Bm25"
    by (simp add: strategy_of_def)
  have p: "py_strip ?q = ?q"
    by code_simp
  have r: "reaches_retrieval ?q"
    by code_simp
  have nr: "\<not> reaches_retrieval ''export to pdf''"
    by code_simp
  note t1 = rejected_gives_sentinel [where env = ?env and calls = "[]" and q = ?q and k = 10
      and mode = "''bm25''" and alpha = "0.4" and hs = "[sample_hit 0.1]"
      and searched = "[Search ?q 10 Bm25]" and rc = True and u = sample_ui
      and hs' = "[sample_hit 0.1]" and float = sample_float and cfg = default_config
      and question = "''export to pdf''"]
  from t1 c have "\<not> ok default_config sample_float [sample_hit 0.1] ''bm25''"
    by blast
  then have nok: "\<not> ok (thresholds ?env) (py_float ?env) [sample_hit 0.1] ''bm25''"
    unfolding e .
  have nc: "\<not> confident_enough default_config sample_float [sample_hit 0.1] m ?q" for m
    using rejected_gives_sentinel [where env = ?env and calls = "[]" and q = ?q and k = 10
        and mode = m and alpha = "0.4" and hs = "[sample_hit 0.1]"
        and searched = "[Search ?q 10 Bm25]" and rc = True and u = sample_ui
        and hs' = "[sample_hit 0.1]" and float = sample_float and cfg = default_config
        and question = ?q] c
    by blast
  have h: "\<forall>cs m n. \<not> confident_enough (thresholds ?env) (py_float ?env)
                  (fst (try_search ?env cs ?q 0.5 m n)) m ?q"
    using nc by (simp add: e try_search_sample)
  from t1 qr nok have "rag_answer ?env [] ?q ''bm25'' 0.4 10 True
     = (Inr (sentinel, [], make_diag ?env [sample_hit 0.1] ''bm25'' 0.4 10),
        [] @ [Search ?q 10 (strategy_of ''bm25'' 0.4)])"
    by blast
  then have 1: "rag_answer ?env [] ?q ''bm25'' 0.4 10 True
     = (Inr (sentinel, [], make_diag ?env [sample_hit 0.1] ''bm25'' 0.4 10), [Search ?q 10 Bm25])"
    unfolding s append_Nil .
  note t2 = rejected_gives_sentinel [where env = ?env and calls = "[]" and q = ?q and k = 6
      and mode = "''hybrid''" and alpha = "0.5" and hs = "[sample_hit 0.1]"
      and searched = "[Search ?q 10 Bm25]" and rc = True and u = sample_ui
      and hs' = "[sample_hit 0.1]" and float = sample_float and cfg = default_config
      and question = ?q]
  from t2 h have "snd (fst (search_loop ?env ?q 0.5 6 (modes_to_try ''hybrid'') [] [])) = None"
    by blast
  then have n: "snd (fst (search_loop ?env (py_strip ?q) 0.5 6 (modes_to_try ''hybrid'') [] []))
      = None"
    unfolding p .
  from t2 r n have "fst (ask ?env sample_ui [] ?q ''hybrid'' 0.5 6) = (Some sentinel, []) \<and>
      filter is_generate (snd (ask ?env sample_ui [] ?q ''hybrid'' 0.5 6)) = filter is_generate []"
    by blast
  then have 2: "fst (ask ?env sample_ui [] ?q ''hybrid'' 0.5 6) = (Some sentinel, []) \<and>
      filter is_generate (snd (ask ?env sample_ui [] ?q ''hybrid'' 0.5 6)) = []"
    unfolding filter.simps .
  note t3 = rejected_gives_sentinel [where env = ?env and calls = "[]" and q = ?q and k = 6
      and mode = "''hybrid''" and alpha = "0.5" and hs = "[sample_hit 0.1]"
      and searched = "[Search ?q 10 Bm25]" and rc = True and u = sample_ui
      and hs' = "[sample_hit 0.1]" and float = sample_float and cfg = default_config
      and question = "''export to pdf''"]
  from t3 nr have 3: "snd (ask ?env sample_ui [] ''export to pdf'' ''hybrid'' 0.5 6) = [] \<and>
      snd (fst (ask ?env sample_ui [] ''export to pdf'' ''hybrid'' 0.5 6)) = []"
    by blast
  from 1 r 2 nr 3 show ?thesis by blast
qed

text \<open>
  C4 as stated fails for \<open>ask\<close>: with a search backend whose every answer is a hit of
  score 0.1, so that each of the six attempts fails the gate, the question
  \<^verbatim>\<open>export to pdf\<close> (three words, none of the keywords) is taken for small talk and
  answered with the greeting, not with the sentinel.
\<close>

theorem small_talk_not_sentinel:
  "ask (sample_env (\<lambda>c. found [sample_hit 0.1]) (\<lambda>c. Inr ''x'')) sample_ui []
       ''export to pdf'' ''hybrid'' 0.5 6
     = ((Some ''Hi! How can I help you with Revit today?'', []), []) \<and>
   ''Hi! How can I help you with Revit today?'' \<noteq> sentinel \<and>
   search_loop (sample_env (\<lambda>c. found [sample_hit 0.1]) (\<lambda>c. Inr ''x'')) ''export to pdf''
       0.5 6 (modes_to_try ''hybrid'') [] []
     = (([sample_hit 0.1], None),
        [Search ''export to pdf'' 6 (Hybrid 0.5), Search ''export to pdf'' 12 (Hybrid 0.5),
         Search ''export to pdf'' 6 Bm25, Search ''export to pdf'' 12 Bm25,
         Search ''export to pdf'' 6 NearText, Search ''export to pdf'' 12 NearText]) \<and>
   conf sample_float (sample_hit 0.1) = 0.1"
  by code_simp

subsection \<open>The order of the attempts\<close>

text \<open>
  C2, as amended. For a preferred strategy among hybrid, bm25 and vector, the loop of
  \<open>ask\<close> tries the preferred strategy first and then the other two in the order hybrid,
  bm25, vector. Each strategy is attempted with the requested \<open>k\<close> and then once more
  with \<open>min (2 * k) 15\<close> before the next strategy; the six attempts are made in this
  order up to the first accepted one. The search calls of the loop are the first \<open>n\<close>
  attempts: all six when none is accepted, and otherwise the \<open>n\<close>-th attempt is the
  accepted one, whose strategy and hits the loop returns. For a question that reaches the
  retrieval path, the calls of \<open>ask\<close> are those of this loop on the stripped question,
  followed by generation calls only. \<open>rag_answer\<close> has no such loop: its calls are one
  search, with the caller's strategy and \<open>k\<close>, followed by generation calls only.
\<close>

theorem fallback_schedule:
  assumes "mode \<in> {''hybrid'', ''bm25'', ''vector''}"
  shows "modes_to_try mode = candidates mode \<and>
    search_loop env q alpha k (modes_to_try mode) [] calls
      = first_accepted env q alpha (attempts (candidates mode) k) [] calls \<and>
    attempts (candidates mode) k
      = [(candidates mode ! 0, k), (candidates mode ! 0, min (2 * k) 15),
         (candidates mode ! 1, k), (candidates mode ! 1, min (2 * k) 15),
         (candidates mode ! 2, k), (candidates mode ! 2, min (2 * k) 15)] \<and>
    (\<exists>n\<le>6.
       snd (search_loop env q alpha k (modes_to_try mode) [] calls)
         = calls @ map (\<lambda>(m, n). Search q n (strategy_of m alpha))
                     (take n (attempts (candidates mode) k)) \<and>
       (case snd (fst (search_loop env q alpha k (modes_to_try mode) [] calls)) of
          None \<Rightarrow> n = 6
        | Some m \<Rightarrow> 0 < n \<and> m = fst (attempts (candidates mode) k ! (n - 1)) \<and>
            fst (fst (search_loop env q alpha k (modes_to_try mode) [] calls)) \<noteq> [] \<and>
            confident_enough (thresholds env) (py_float env)
              (fst (fst (search_loop env q alpha k (modes_to_try mode) [] calls))) m q)) \<and>
    (reaches_retrieval question \<longrightarrow>
       (\<exists>gs. snd (ask env u calls question mode alpha k)
               = snd (search_loop env (py_strip question) alpha k (modes_to_try mode) [] calls) @ gs \<and>
             list_all is_generate gs)) \<and>
    (\<exists>gs. snd (rag_answer env calls q mode alpha k rc)
            = calls @ Search q k (strategy_of mode alpha) # gs \<and> list_all is_generate gs)"
proof -
  have m: "modes_to_try mode = candidates mode"
    by (rule modes_to_try_candidates [OF assms])
  have l: "search_loop env q alpha k (modes_to_try mode) [] calls
      = first_accepted env q alpha (attempts (candidates mode) k) [] calls"
    by (simp add: m search_loop_first_accepted)
  have a: "attempts (candidates mode) k
      = [(candidates mode ! 0, k), (candidates mode ! 0, min (2 * k) 15),
         (candidates mode ! 1, k), (candidates mode ! 1, min (2 * k) 15),
         (candidates mode ! 2, k), (candidates mode ! 2, min (2 * k) 15)]"
    by (simp add: attempts_def candidates_def)
  have len: "length (attempts (candidates mode) k) = 6"
    by (simp add: attempts_def candidates_def)
  have n: "\<exists>n\<le>6.
       snd (search_loop env q alpha k (modes_to_try mode) [] calls)
         = calls @ map (\<lambda>(m, n). Search q n (strategy_of m alpha))
                     (take n (attempts (candidates mode) k)) \<and>
       (case snd (fst (search_loop env q alpha k (modes_to_try mode) [] calls)) of
          None \<Rightarrow> n = 6
        | Some m \<Rightarrow> 0 < n \<and> m = fst (attempts (candidates mode) k ! (n - 1)) \<and>
            fst (fst (search_loop env q alpha k (modes_to_try mode) [] calls)) \<noteq> [] \<and>
            confident_enough (thresholds env) (py_float env)
              (fst (fst (search_loop env q alpha k (modes_to_try mode) [] calls))) m q)"
    using first_accepted_calls [of "attempts (candidates mode) k" env q alpha "[]" calls]
    unfolding len l [symmetric] by blast
  have r: "reaches_retrieval question \<longrightarrow>
       (\<exists>gs. snd (ask env u calls question mode alpha k)
               = snd (search_loop env (py_strip question) alpha k (modes_to_try mode) [] calls) @ gs \<and>
             list_all is_generate gs)"
    using ask_retrieval_calls [of env u calls "py_strip question" mode alpha k]
    by (auto simp: ask_reaches)
  have g: "\<exists>gs. snd (rag_answer env calls q mode alpha k rc)
            = calls @ Search q k (strategy_of mode alpha) # gs \<and> list_all is_generate gs"
    by (rule rag_answer_calls)
  from m l a n r g show ?thesis by blast
qed

theorem fallback_schedule_witness:
  "''bm25'' \<in> {''hybrid'', ''bm25'', ''vector''} \<and>
   search_loop
     (sample_env (\<lambda>c. if length c < 2 then found [sample_hit 0.1] else found [sample_hit 0.9])
        (\<lambda>c. Inr ''Add grid lines. [1]''))
     ''grid spacing'' 0.5 6 (modes_to_try ''bm25'') [] []
   = (([sample_hit 0.9], Some ''hybrid''),
      [Search ''grid spacing'' 6 Bm25, Search ''grid spacing'' 12 Bm25,
       Search ''grid spacing'' 6 (Hybrid 0.5)]) \<and>
   reaches_retrieval '' grid spacing '' \<and>
   take 3 (snd (ask
     (sample_env (\<lambda>c. if length c < 2 then found [sample_hit 0.1] else found [sample_hit 0.9])
        (\<lambda>c. Inr ''Add grid lines. [1]''))
     sample_ui [] '' grid spacing '' ''bm25'' 0.5 6))
   = [Search ''grid spacing'' 6 Bm25, Search ''grid spacing'' 12 Bm25,
      Search ''grid spacing'' 6 (Hybrid 0.5)]"
proof -
  let ?env = "sample_env (\<lambda>c. if length c < 2 then found [sample_hit 0.1] else found [sample_hit 0.9])
        (\<lambda>c. Inr ''Add grid lines. [1]'')"
  let ?s = "[Search ''grid spacing'' 6 Bm25, Search ''grid spacing'' 12 Bm25,
       Search ''grid spacing'' 6 (Hybrid 0.5)]"
  have h: "''bm25'' \<in> {''hybrid'', ''bm25'', ''vector''}"
    by simp
  have h2: "reaches_retrieval '' grid spacing ''"
    by code_simp
  have p: "py_strip '' grid spacing '' = ''grid spacing''"
    by code_simp
  note t = fallback_schedule [OF h, of ?env "''grid spacing''" "0.5" 6 "[]" "'' grid spacing ''"
      sample_ui True]
  from t have "search_loop ?env ''grid spacing'' 0.5 6 (modes_to_try ''bm25'') [] []
      = first_accepted ?env ''grid spacing'' 0.5 (attempts (candidates ''bm25'') 6) [] []"
    by blast
  also have "\<dots> = (([sample_hit 0.9], Some ''hybrid''), ?s)"
    by code_simp
  finally have l: "search_loop ?env ''grid spacing'' 0.5 6 (modes_to_try ''bm25'') [] []
      = (([sample_hit 0.9], Some ''hybrid''), ?s)" .
  from t h2 obtain gs where "snd (ask ?env sample_ui [] '' grid spacing '' ''bm25'' 0.5 6)
      = snd (search_loop ?env (py_strip '' grid spacing '') 0.5 6 (modes_to_try ''bm25'') [] []) @ gs"
    by blast
  then have "snd (ask ?env sample_ui [] '' grid spacing '' ''bm25'' 0.5 6) = ?s @ gs"
    unfolding p l by simp
  then have a: "take 3 (snd (ask ?env sample_ui [] '' grid spacing '' ''bm25'' 0.5 6)) = ?s"
    by simp
  from h l h2 a show ?thesis by blast
qed

text \<open>
  C2 as stated fails for \<open>rag_answer\<close>: with a search backend whose first answer is a
  hit of score 0.1 and whose later answers are a hit of score 0.9, \<open>rag_answer\<close> returns
  the sentinel after its one search with \<open>k = 6\<close>. The retry of the same strategy with
  \<open>min (2 * 6) 15 = 12\<close> would have been accepted; \<open>ask\<close> makes it and answers.
\<close>

theorem rag_answer_single_attempt:
  "rag_answer
     (sample_env (\<lambda>c. if length c < 1 then found [sample_hit 0.1] else found [sample_hit 0.9])
        (\<lambda>c. Inr ''Add grid lines. [1]''))
     [] ''grid spacing'' ''hybrid'' 0.5 6 True
   = (Inr (sentinel, [],
        \<lparr>diag_hits = 1, diag_best_conf = 0.1, diag_mode = ''hybrid'', diag_alpha = 0.5,
           diag_k = 6\<rparr>),
      [Search ''grid spacing'' 6 (Hybrid 0.5)]) \<and>
   min (2 * 6) 15 = (12 :: int) \<and>
   try_search
     (sample_env (\<lambda>c. if length c < 1 then found [sample_hit 0.1] else found [sample_hit 0.9])
        (\<lambda>c. Inr ''Add grid lines. [1]''))
     [Search ''grid spacing'' 6 (Hybrid 0.5)] ''grid spacing'' 0.5 ''hybrid'' 12
   = ([sample_hit 0.9],
      [Search ''grid spacing'' 6 (Hybrid 0.5), Search ''grid spacing'' 12 (Hybrid 0.5)]) \<and>
   confident_enough default_config sample_float [sample_hit 0.9] ''hybrid'' ''grid spacing'' \<and>
   fst (ask
     (sample_env (\<lambda>c. if length c < 1 then found [sample_hit 0.1] else found [sample_hit 0.9])
        (\<lambda>c. Inr ''Add grid lines. [1]''))
     sample_ui [] ''grid spacing'' ''hybrid'' 0.5 6)
   = (Some ''Add grid lines. [1]'',
      ''- [1] Curtain walls (chunk 3)'' @ [NL] @ ''  https://example.org/walls'')"
  by code_simp

subsection \<open>Errors of the backends and the caller\<close>

text \<open>
  C6. A generation error is to reach the caller as an error, not as the sentinel. With a
  search backend that returns a confident hit and a generation backend that raises
  \<^verbatim>\<open>Read timed out\<close>, \<open>ask\<close> builds its error message and the citation check that
  follows replaces it by the sentinel: so does the retrieval path for any question and
  any text helpers, and so does \<open>ask\<close> for every question that reaches it.
  \<open>rag_answer\<close> returns the message \<^verbatim>\<open>Generation error: Read timed out\<close>.
\<close>

theorem ask_hides_generation_error:
  "(reaches_retrieval question \<longrightarrow>
      fst (ask (sample_env (\<lambda>c. found [sample_hit 0.9]) (\<lambda>c. Inl (Exn ''Read timed out'')))
             u [] question ''hybrid'' 0.5 6) = (Some sentinel, [])) \<and>
   fst (ask_retrieval (sample_env (\<lambda>c. found [sample_hit 0.9]) (\<lambda>c. Inl (Exn ''Read timed out'')))
          u [] q ''hybrid'' 0.5 6) = (sentinel, []) \<and>
   fst (rag_answer (sample_env (\<lambda>c. found [sample_hit 0.9]) (\<lambda>c. Inl (Exn ''Read timed out'')))
          [] q ''hybrid'' 0.5 6 True)
     = Inr (''Generation error: Read timed out'', [],
            make_diag (sample_env (\<lambda>c. found [sample_hit 0.9]) (\<lambda>c. Inl (Exn ''Read timed out'')))
              [sample_hit 0.9] ''hybrid'' 0.5 6)"
proof -
  let ?env = "sample_env (\<lambda>c. found [sample_hit 0.9]) (\<lambda>c. Inl (Exn ''Read timed out''))"
  have l: "search_loop ?env s 0.5 6 (modes_to_try ''hybrid'') [] []
      = (([sample_hit 0.9], Some ''hybrid''), [Search s 6 (Hybrid 0.5)])" for s
    by (simp add: modes_to_try_def try_search_sample sample_env_sel confident_sample_hit
        strategy_of_def)
  have c: "\<not> search_citation (''I encountered an error while generating the response: ''
      @ message (Exn ''Read timed out''))"
    by code_simp
  have 1: "fst (ask_retrieval ?env u [] s ''hybrid'' 0.5 6) = (sentinel, [])" for s
    by (rule ask_retrieval_generation_error [OF l _ _ _ c]) (simp_all add: sample_env_sel)
  have 0: "reaches_retrieval question \<longrightarrow>
      fst (ask ?env u [] question ''hybrid'' 0.5 6) = (Some sentinel, [])"
    using 1 [of "py_strip question"] by (simp add: ask_reaches)
  have g: "generate_answer ?env [Search q 6 (Hybrid 0.5)] q (fst (ctx [sample_hit 0.9]))
      = (Inl (Exn ''Read timed out''),
         [Search q 6 (Hybrid 0.5)] @ [Generate (prompt q (fst (ctx [sample_hit 0.9]))) 1200])"
    by (rule generate_answer_first_raises) (simp add: sample_env_sel)
  have "query ?env [] q 6 ''hybrid'' 0.5 = (Inr [sample_hit 0.9], [Search q 6 (Hybrid 0.5)])"
    by (simp add: query_sample strategy_of_def)
  from rag_answer_generation_error [OF this _ g, of True]
  have 2: "fst (rag_answer ?env [] q ''hybrid'' 0.5 6 True)
     = Inr (''Generation error: Read timed out'', [], make_diag ?env [sample_hit 0.9] ''hybrid'' 0.5 6)"
    by (simp add: sample_env_sel ok_sample_hit)
  from 0 1 [of q] 2 show ?thesis by blast
qed

theorem ask_hides_generation_error_witness:
  "reaches_retrieval ''grid spacing'' \<and>
   fst (ask (sample_env (\<lambda>c. found [sample_hit 0.9]) (\<lambda>c. Inl (Exn ''Read timed out'')))
          sample_ui [] ''grid spacing'' ''hybrid'' 0.5 6) = (Some sentinel, []) \<and>
   fst (rag_answer (sample_env (\<lambda>c. found [sample_hit 0.9]) (\<lambda>c. Inl (Exn ''Read timed out'')))
          [] ''grid spacing'' ''hybrid'' 0.5 6 True)
     = Inr (''Generation error: Read timed out'', [],
            \<lparr>diag_hits = 1, diag_best_conf = 0.9, diag_mode = ''hybrid'', diag_alpha = 0.5,
               diag_k = 6\<rparr>)"
proof -
  let ?env = "sample_env (\<lambda>c. found [sample_hit 0.9]) (\<lambda>c. Inl (Exn ''Read timed out''))"
  have r: "reaches_retrieval ''grid spacing''"
    by code_simp
  have d: "make_diag ?env [sample_hit 0.9] ''hybrid'' 0.5 6
      = \<lparr>diag_hits = 1, diag_best_conf = 0.9, diag_mode = ''hybrid'', diag_alpha = 0.5,
           diag_k = 6\<rparr>"
    by code_simp
  note t = ask_hides_generation_error [of "''grid spacing''" sample_ui "''grid spacing''"]
  from t r have 1: "fst (ask ?env sample_ui [] ''grid spacing'' ''hybrid'' 0.5 6)
      = (Some sentinel, [])"
    by blast
  from t have 2: "fst (rag_answer ?env [] ''grid spacing'' ''hybrid'' 0.5 6 True)
     = Inr (''Generation error: Read timed out'', [],
            make_diag ?env [sample_hit 0.9] ''hybrid'' 0.5 6)"
    by blast
  from r 1 2 [unfolded d] show ?thesis by blast
qed

text \<open>
  C8. A failed retrieval call is to count as no hits. In \<open>rag_answer\<close> it does not: an
  exception of the search backend leaves \<open>rag_answer\<close>, and so does the
  \<^verbatim>\<open>AttributeError\<close> on a response whose \<^verbatim>\<open>"data"\<close> is \<^verbatim>\<open>None\<close>. The attempt
  \<open>try_search\<close> of ui_gradio.py gives no hits on the same backend, the retrieval path
  of \<open>ask\<close> answers the sentinel, and so does \<open>ask\<close> for every question that reaches
  it.
\<close>

theorem search_error_leaves_rag_answer:
  "fst (rag_answer (sample_env (\<lambda>c. Inl (Exn ''Connection refused'')) g) calls q mode alpha k rc)
     = Inl (Exn ''Connection refused'') \<and>
   fst (rag_answer (sample_env (\<lambda>c. Inr (Some Null)) g) calls q mode alpha k rc)
     = Inl attribute_error \<and>
   fst (try_search (sample_env (\<lambda>c. Inl (Exn ''Connection refused'')) g) calls q alpha m n) = [] \<and>
   fst (ask_retrieval (sample_env (\<lambda>c. Inl (Exn ''Connection refused'')) g) u calls q mode alpha k)
     = (sentinel, []) \<and>
   (reaches_retrieval question \<longrightarrow>
      fst (ask (sample_env (\<lambda>c. Inl (Exn ''Connection refused'')) g) u calls question mode alpha k)
        = (Some sentinel, []))"
proof -
  let ?env = "sample_env (\<lambda>c. Inl (Exn ''Connection refused'')) g"
  have 1: "fst (rag_answer ?env calls q mode alpha k rc) = Inl (Exn ''Connection refused'')"
    using rag_answer_search_error [OF query_raises, of ?env calls q k mode alpha
        "Exn ''Connection refused''" rc]
    by (simp add: sample_env_sel)
  have "query (sample_env (\<lambda>c. Inr (Some Null)) g) calls q k mode alpha
      = (Inl attribute_error, calls @ [Search q k (strategy_of mode alpha)])"
    by (simp add: query_def sample_env_sel get_hits_malformed)
  then have 2: "fst (rag_answer (sample_env (\<lambda>c. Inr (Some Null)) g) calls q mode alpha k rc)
      = Inl attribute_error"
    by (simp add: rag_answer_search_error)
  have t: "try_search ?env cs s alpha m' n' = ([], cs @ [Search s n' (strategy_of m' alpha)])"
    for cs m' n' s
    by (rule try_search_raises) (simp add: sample_env_sel)
  then have 3: "fst (try_search ?env calls q alpha m n) = []"
    by simp
  have 4: "fst (ask_retrieval ?env u calls s mode alpha k) = (sentinel, [])" for s
  proof -
    have "\<forall>cs m n. \<not> confident_enough (thresholds ?env) (py_float ?env)
                  (fst (try_search ?env cs s alpha m n)) m s"
      by (simp add: t confident_enough_def)
    then have "snd (fst (search_loop ?env s alpha k (modes_to_try mode) [] calls)) = None"
      by (rule search_loop_exhausted)
    then show ?thesis
      by (simp add: ask_retrieval_exhausted)
  qed
  have 5: "reaches_retrieval question \<longrightarrow>
      fst (ask ?env u calls question mode alpha k) = (Some sentinel, [])"
    using 4 [of "py_strip question"] by (simp add: ask_reaches)
  from 1 2 3 4 [of q] 5 show ?thesis by blast
qed

theorem search_error_leaves_rag_answer_witness:
  "reaches_retrieval ''grid spacing'' \<and>
   fst (ask (sample_env (\<lambda>c. Inl (Exn ''Connection refused'')) (\<lambda>c. Inr ''x'')) sample_ui []
          ''grid spacing'' ''hybrid'' 0.5 6) = (Some sentinel, []) \<and>
   fst (rag_answer (sample_env (\<lambda>c. Inl (Exn ''Connection refused'')) (\<lambda>c. Inr ''x'')) []
          ''grid spacing'' ''hybrid'' 0.5 6 True) = Inl (Exn ''Connection refused'')"
proof -
  have r: "reaches_retrieval ''grid spacing''"
    by code_simp
  note t = search_error_leaves_rag_answer [of "\<lambda>c. Inr ''x''" "[]" "''grid spacing''" "''hybrid''"
      "0.5" 6 True "''hybrid''" 6 sample_ui "''grid spacing''"]
  from t r have 1: "fst (ask (sample_env (\<lambda>c. Inl (Exn ''Connection refused'')) (\<lambda>c. Inr ''x''))
      sample_ui [] ''grid spacing'' ''hybrid'' 0.5 6) = (Some sentinel, [])"
    by blast
  from t have 2: "fst (rag_answer (sample_env (\<lambda>c. Inl (Exn ''Connection refused''))
      (\<lambda>c. Inr ''x'')) [] ''grid spacing'' ''hybrid'' 0.5 6 True) = Inl (Exn ''Connection refused'')"
    by blast
  from r 1 2 show ?thesis by blast
qed

end
